theory Spec2Isabelle
  imports Main
begin

section \<open>Go strings and the library functions the workflow package calls\<close>

text \<open>
  A Go string is a sequence of bytes, here a \<^typ>\<open>string\<close> (a list of 8-bit characters).
  The functions of package \<open>strings\<close> that the workflow package calls are modelled on
  bytes. \<open>strings.TrimSpace\<close> and \<open>strings.Fields\<close> treat as white space the runes of
  \<open>unicode.IsSpace\<close>; the table \<open>whiteSpace\<close> lists their UTF-8 encodings, so that
  both functions are modelled on every byte string. \<open>strings.ToLower\<close> lower-cases an
  ASCII string byte by byte and maps \<open>unicode.ToLower\<close> over the runes of any other
  string; the case table of package \<open>unicode\<close>, which \<open>unicode.ToLower\<close> consults for a
  rune beyond ASCII, is a parameter of the model (\<open>lowerCase\<close>).
\<close>

definition asciiSpace :: "char list" where
  "asciiSpace = [CHR 0x09, CHR 0x0A, CHR 0x0B, CHR 0x0C, CHR 0x0D, CHR 0x20]"

definition whiteSpace :: "string list" where
  "whiteSpace =
     map (\<lambda>c. [c]) asciiSpace @
     [[CHR 0xC2, CHR 0x85], [CHR 0xC2, CHR 0xA0],
      [CHR 0xE1, CHR 0x9A, CHR 0x80],
      [CHR 0xE2, CHR 0x80, CHR 0x80], [CHR 0xE2, CHR 0x80, CHR 0x81],
      [CHR 0xE2, CHR 0x80, CHR 0x82], [CHR 0xE2, CHR 0x80, CHR 0x83],
      [CHR 0xE2, CHR 0x80, CHR 0x84], [CHR 0xE2, CHR 0x80, CHR 0x85],
      [CHR 0xE2, CHR 0x80, CHR 0x86], [CHR 0xE2, CHR 0x80, CHR 0x87],
      [CHR 0xE2, CHR 0x80, CHR 0x88], [CHR 0xE2, CHR 0x80, CHR 0x89],
      [CHR 0xE2, CHR 0x80, CHR 0x8A],
      [CHR 0xE2, CHR 0x80, CHR 0xA8], [CHR 0xE2, CHR 0x80, CHR 0xA9],
      [CHR 0xE2, CHR 0x80, CHR 0xAF],
      [CHR 0xE2, CHR 0x81, CHR 0x9F],
      [CHR 0xE3, CHR 0x80, CHR 0x80]]"

text \<open>\<open>strings.HasPrefix(s, prefix)\<close>.\<close>

definition HasPrefix :: "string \<Rightarrow> string \<Rightarrow> bool" where
  "HasPrefix s p = (take (length p) s = p)"

text \<open>\<open>strings.HasSuffix(s, suffix)\<close>.\<close>

definition HasSuffix :: "string \<Rightarrow> string \<Rightarrow> bool" where
  "HasSuffix s p = (length p \<le> length s \<and> drop (length s - length p) s = p)"

text \<open>The number of bytes of the white-space rune encoded at the start (at the end) of a
  string, 0 when there is none.\<close>

definition space_width :: "string \<Rightarrow> nat" where
  "space_width s = (case find (HasPrefix s) whiteSpace of None \<Rightarrow> 0 | Some p \<Rightarrow> length p)"

definition space_width_end :: "string \<Rightarrow> nat" where
  "space_width_end s = (case find (HasSuffix s) whiteSpace of None \<Rightarrow> 0 | Some p \<Rightarrow> length p)"

text \<open>\<open>strings.Contains(s, substr)\<close>.\<close>

fun Contains :: "string \<Rightarrow> string \<Rightarrow> bool" where
  "Contains [] sub = (sub = [])"
| "Contains (c # cs) sub = (HasPrefix (c # cs) sub \<or> Contains cs sub)"

text \<open>\<open>strings.Split(s, sep)\<close> for a non-empty separator: the pieces between the
  non-overlapping occurrences of \<open>sep\<close>, found from the left. (For the empty separator Go
  splits after each UTF-8 sequence; the workflow package never passes it, and the model
  then splits after each byte.)\<close>

fun split_go :: "string \<Rightarrow> string \<Rightarrow> string \<Rightarrow> string list" where
  "split_go sep cur [] = [cur]"
| "split_go sep cur (c # cs) =
     (if sep \<noteq> [] \<and> HasPrefix (c # cs) sep
      then cur # split_go sep [] (drop (length sep - 1) cs)
      else split_go sep (cur @ [c]) cs)"

definition Split :: "string \<Rightarrow> string \<Rightarrow> string list" where
  "Split s sep = (if sep = [] then map (\<lambda>c. [c]) s else split_go sep [] s)"

text \<open>\<open>strings.Join(elems, sep)\<close>.\<close>

fun Join :: "string list \<Rightarrow> string \<Rightarrow> string" where
  "Join [] sep = []"
| "Join [x] sep = x"
| "Join (x # y # ys) sep = x @ sep @ Join (y # ys) sep"

text \<open>\<open>strings.TrimSpace(s)\<close>: white-space runes are removed from the left, then from
  the right.\<close>

fun trimLeft :: "string \<Rightarrow> string" where
  "trimLeft [] = []"
| "trimLeft (c # cs) =
     (if 0 < space_width (c # cs) then trimLeft (drop (space_width (c # cs) - 1) cs)
      else c # cs)"

lemma whiteSpace_nonempty: "p \<in> set whiteSpace \<Longrightarrow> p \<noteq> []"
  by (auto simp: whiteSpace_def asciiSpace_def)

lemma find_whiteSpace_SomeD:
  "find P whiteSpace = Some p \<Longrightarrow> P p \<and> p \<in> set whiteSpace \<and> 0 < length p"
  using whiteSpace_nonempty by (auto simp: find_Some_iff)

lemma space_width_end_less:
  assumes "0 < space_width_end s"
  shows "length s - space_width_end s < length s"
proof -
  from assms obtain p where p: "find (HasSuffix s) whiteSpace = Some p"
    and w: "space_width_end s = length p"
    by (auto simp: space_width_end_def split: option.splits)
  from find_whiteSpace_SomeD [OF p] have "0 < length p" and "length p \<le> length s"
    by (simp_all add: HasSuffix_def)
  with w show ?thesis by arith
qed

function trimRight :: "string \<Rightarrow> string" where
  "trimRight s =
     (if 0 < space_width_end s then trimRight (take (length s - space_width_end s) s)
      else s)"
  by pat_completeness auto
termination
  by (relation "measure length") (auto dest: space_width_end_less)

declare trimRight.simps [simp del]

definition TrimSpace :: "string \<Rightarrow> string" where
  "TrimSpace s = trimRight (trimLeft s)"

text \<open>\<open>strings.Fields(s)\<close>: the maximal runs of bytes between white-space runes.\<close>

definition flush :: "string \<Rightarrow> string list" where
  "flush cur = (if cur = [] then [] else [cur])"

fun fields_go :: "string \<Rightarrow> string \<Rightarrow> string list" where
  "fields_go cur [] = flush cur"
| "fields_go cur (c # cs) =
     (if 0 < space_width (c # cs)
      then flush cur @ fields_go [] (drop (space_width (c # cs) - 1) cs)
      else fields_go (cur @ [c]) cs)"

definition Fields :: "string \<Rightarrow> string list" where
  "Fields s = fields_go [] s"

subsection \<open>Runes and lower case\<close>

text \<open>
  A rune is a code point, a natural number. \<open>utf8.DecodeRuneInString\<close> returns the rune
  encoded at the start of a string and its width in bytes; a byte that starts no valid
  encoding is the rune \<open>RuneError\<close> of width 1 (overlong forms, surrogates and values
  beyond U+10FFFF are not valid: the second byte is checked against the range that the
  first byte accepts).
\<close>

definition RuneError :: nat where
  "RuneError = 0xFFFD"

definition DecodeRuneInString :: "string \<Rightarrow> nat \<times> nat" where
  "DecodeRuneInString s =
     (case s of
        [] \<Rightarrow> (RuneError, 0)
      | c0 # _ \<Rightarrow>
          (let s0 = (of_char c0 :: nat) in
           if s0 < 0x80 then (s0, 1)
           else if s0 < 0xC2 \<or> 0xF4 < s0 then (RuneError, 1)
           else
             (let sz = (if s0 < 0xE0 then 2 else if s0 < 0xF0 then 3 else 4 :: nat);
                  lo = (if s0 = 0xE0 then 0xA0 else if s0 = 0xF0 then 0x90 else 0x80 :: nat);
                  hi = (if s0 = 0xED then 0x9F else if s0 = 0xF4 then 0x8F else 0xBF :: nat)
              in if length s < sz then (RuneError, 1)
                 else
                   (let s1 = (of_char (s ! 1) :: nat) in
                    if s1 < lo \<or> hi < s1 then (RuneError, 1)
                    else if sz \<le> 2 then ((s0 mod 32) * 64 + s1 mod 64, 2)
                    else
                      (let s2 = (of_char (s ! 2) :: nat) in
                       if s2 < 0x80 \<or> 0xBF < s2 then (RuneError, 1)
                       else if sz \<le> 3
                       then ((s0 mod 16) * 4096 + (s1 mod 64) * 64 + s2 mod 64, 3)
                       else
                         (let s3 = (of_char (s ! 3) :: nat) in
                          if s3 < 0x80 \<or> 0xBF < s3 then (RuneError, 1)
                          else ((s0 mod 8) * 262144 + (s1 mod 64) * 4096 +
                                (s2 mod 64) * 64 + s3 mod 64, 4)))))))"

text \<open>\<open>utf8.AppendRune\<close>, as \<open>Builder.WriteRune\<close> calls it: the UTF-8 encoding of a rune; a
  surrogate or a value beyond U+10FFFF is written as \<open>RuneError\<close>.\<close>

definition encode3 :: "nat \<Rightarrow> string" where
  "encode3 r =
     [char_of (0xE0 + r div 4096), char_of (0x80 + (r div 64) mod 64), char_of (0x80 + r mod 64)]"

definition EncodeRune :: "nat \<Rightarrow> string" where
  "EncodeRune r =
     (if r \<le> 0x7F then [char_of r]
      else if r \<le> 0x7FF then [char_of (0xC0 + r div 64), char_of (0x80 + r mod 64)]
      else if 0x10FFFF < r \<or> (0xD800 \<le> r \<and> r \<le> 0xDFFF) then encode3 RuneError
      else if r \<le> 0xFFFF then encode3 r
      else [char_of (0xF0 + r div 262144), char_of (0x80 + (r div 4096) mod 64),
            char_of (0x80 + (r div 64) mod 64), char_of (0x80 + r mod 64)])"

text \<open>
  \<open>strings.Map(mapping, s)\<close> for a mapping that returns no negative value: the runes of
  \<open>s\<close> are decoded one after the other, an invalid byte as \<open>RuneError\<close>, and the encodings
  of their images are written. (Go copies the bytes of a leading run of unchanged valid
  runes instead of encoding them again, which gives the same bytes.)
\<close>

lemma DecodeRuneInString_width: "s \<noteq> [] \<Longrightarrow> 0 < snd (DecodeRuneInString s)"
  by (cases s) (simp_all add: DecodeRuneInString_def Let_def)

lemma DecodeRuneInString_shorter:
  "s \<noteq> [] \<Longrightarrow> length s - snd (DecodeRuneInString s) < length s"
  using DecodeRuneInString_width [of s] by (cases s) simp_all

function strings_Map :: "(nat \<Rightarrow> nat) \<Rightarrow> string \<Rightarrow> string" where
  "strings_Map mapping s =
     (if s = [] then []
      else EncodeRune (mapping (fst (DecodeRuneInString s))) @
           strings_Map mapping (drop (snd (DecodeRuneInString s)) s))"
  by pat_completeness auto
termination
  by (relation "measure (\<lambda>(mapping, s). length s)") (simp_all add: DecodeRuneInString_shorter)

declare strings_Map.simps [simp del]

text \<open>\<open>unicode.ToLower(r)\<close>: the letters \<open>A\<close> to \<open>Z\<close> are shifted, any other ASCII rune is
  returned as it is, and a rune beyond ASCII is looked up in the case table.\<close>

definition unicode_ToLower :: "(nat \<Rightarrow> nat) \<Rightarrow> nat \<Rightarrow> nat" where
  "unicode_ToLower lowerCase r =
     (if r \<le> 0x7F then (if 65 \<le> r \<and> r \<le> 90 then r + 32 else r) else lowerCase r)"

text \<open>\<open>strings.ToLower(s)\<close>: the ASCII path, byte by byte, when no byte of \<open>s\<close> is 0x80 or
  more; otherwise \<open>Map(unicode.ToLower, s)\<close>.\<close>

definition lower_char :: "char \<Rightarrow> char" where
  "lower_char c =
     (let n = (of_char c :: nat) in if 65 \<le> n \<and> n \<le> 90 then char_of (n + 32) else c)"

definition isASCII :: "string \<Rightarrow> bool" where
  "isASCII s = list_all (\<lambda>c. (of_char c :: nat) < 0x80) s"

definition ToLower :: "(nat \<Rightarrow> nat) \<Rightarrow> string \<Rightarrow> string" where
  "ToLower lowerCase s =
     (if isASCII s then map lower_char s else strings_Map (unicode_ToLower lowerCase) s)"

text \<open>
  Two entries of the case table, for the examples: the runes beyond ASCII whose lower
  case is an ASCII letter, the Kelvin sign U+212A (\<open>k\<close>) and the dotted capital I U+0130
  (\<open>i\<close>). The theorems hold for every table; the examples are ASCII texts, for which no
  table is consulted, or consult it at these runes only.
\<close>

definition lowerCase_into_ASCII :: "nat \<Rightarrow> nat" where
  "lowerCase_into_ASCII r = (if r = 0x212A then 0x6B else if r = 0x130 then 0x69 else r)"

section \<open>The workflow model\<close>

text \<open>
  The fields \<open>RunsOn\<close>, \<open>Services\<close> and \<open>Container\<close> of a job hold a Go value of type
  \<open>any\<close>, as the YAML decoder leaves it: nil, a string, a sequence (\<open>[]any\<close>), a mapping,
  or a scalar of another type. A type switch or a type assertion of the source is a
  \<open>case\<close> on the constructor. The methods have a pointer receiver; a job of the
  model is the struct that a non-nil pointer refers to, and a nil slice of steps is the
  empty list.
\<close>

datatype go_value =
    Nil
  | String string
  | Slice "go_value list"
  | Map "(string \<times> go_value) list"
  | Int int
  | Bool bool

record Step =
  Run :: string
  Uses :: string

record Job =
  RunsOn :: go_value
  Steps :: "Step list"
  Services :: go_value
  Container :: go_value

subsection \<open>The runner label\<close>

text \<open>\<open>str, ok := item.(string); ok && str == "ubuntu-latest"\<close>\<close>

fun item_is_ubuntu_latest :: "go_value \<Rightarrow> bool" where
  "item_is_ubuntu_latest (String str) = (str = ''ubuntu-latest'')"
| "item_is_ubuntu_latest _ = False"

fun IsUbuntuLatest_value :: "go_value \<Rightarrow> bool" where
  "IsUbuntuLatest_value Nil = False"
| "IsUbuntuLatest_value (String v) = (v = ''ubuntu-latest'')"
| "IsUbuntuLatest_value (Slice v) = list_ex item_is_ubuntu_latest v"
| "IsUbuntuLatest_value _ = False"

definition IsUbuntuLatest :: "Job \<Rightarrow> bool" where
  "IsUbuntuLatest j = IsUbuntuLatest_value (RunsOn j)"

subsection \<open>Container actions, services and the container declaration\<close>

definition containerActionPrefixes :: "string list" where
  "containerActionPrefixes = [''docker'']"

definition step_has_container_action :: "Step \<Rightarrow> bool" where
  "step_has_container_action step =
     (if Uses step = [] then False
      else list_ex (\<lambda>prefix. HasPrefix (Uses step) prefix) containerActionPrefixes)"

definition HasContainerActions :: "Job \<Rightarrow> bool" where
  "HasContainerActions j = list_ex step_has_container_action (Steps j)"

definition HasServices :: "Job \<Rightarrow> bool" where
  "HasServices j = (Services j \<noteq> Nil)"

definition HasContainer :: "Job \<Rightarrow> bool" where
  "HasContainer j = (Container j \<noteq> Nil)"

section \<open>Regular expressions\<close>

text \<open>
  The constructs of Go's \<open>regexp\<close> syntax that the patterns of the package use: the ASCII
  word boundary \<open>\b\<close>, a literal, a character class (\<open>[\s-]\<close>), one or more characters of
  a class (\<open>\s+\<close>), concatenation and alternation. The matcher walks the text with one
  character of look-behind: a state is the character before the position (if any) and
  the text from the position on, and \<open>matches r st\<close> lists the states in which a match
  of \<open>r\<close> that starts in \<open>st\<close> can end. \<open>MatchString\<close> holds when a match starts somewhere.
\<close>

datatype regex =
    WordBoundary
  | Literal string
  | CharClass "char list"
  | OneOrMore "char list"
  | Concat regex regex
  | Alternate regex regex

text \<open>\<open>\w\<close>: \<open>[0-9A-Za-z_]\<close>.\<close>

definition is_word_char :: "char \<Rightarrow> bool" where
  "is_word_char c =
     (let n = (of_char c :: nat)
      in (48 \<le> n \<and> n \<le> 57) \<or> (65 \<le> n \<and> n \<le> 90) \<or> (97 \<le> n \<and> n \<le> 122) \<or> n = 95)"

text \<open>\<open>\s\<close>: \<open>[\t\n\f\r ]\<close>.\<close>

definition perl_space :: "char list" where
  "perl_space = [CHR 0x09, CHR 0x0A, CHR 0x0C, CHR 0x0D, CHR 0x20]"

type_synonym match_state = "char option \<times> string"

definition word_before :: "match_state \<Rightarrow> bool" where
  "word_before st = (case fst st of None \<Rightarrow> False | Some c \<Rightarrow> is_word_char c)"

definition word_after :: "match_state \<Rightarrow> bool" where
  "word_after st = (case snd st of [] \<Rightarrow> False | c # _ \<Rightarrow> is_word_char c)"

fun consume :: "string \<Rightarrow> match_state \<Rightarrow> match_state option" where
  "consume [] st = Some st"
| "consume (c # cs) (prev, []) = None"
| "consume (c # cs) (prev, d # ds) = (if c = d then consume cs (Some d, ds) else None)"

fun repeat_class :: "char list \<Rightarrow> match_state \<Rightarrow> match_state list" where
  "repeat_class cls (prev, []) = []"
| "repeat_class cls (prev, d # ds) =
     (if d \<in> set cls then (Some d, ds) # repeat_class cls (Some d, ds) else [])"

fun matches :: "regex \<Rightarrow> match_state \<Rightarrow> match_state list" where
  "matches WordBoundary st = (if word_before st \<noteq> word_after st then [st] else [])"
| "matches (Literal w) st = (case consume w st of None \<Rightarrow> [] | Some st' \<Rightarrow> [st'])"
| "matches (CharClass cls) st =
     (case snd st of [] \<Rightarrow> [] | d # ds \<Rightarrow> if d \<in> set cls then [(Some d, ds)] else [])"
| "matches (OneOrMore cls) st = repeat_class cls st"
| "matches (Concat a b) st = concat (map (matches b) (matches a st))"
| "matches (Alternate a b) st = matches a st @ matches b st"

fun positions :: "match_state \<Rightarrow> match_state list" where
  "positions (prev, []) = [(prev, [])]"
| "positions (prev, d # ds) = (prev, d # ds) # positions (Some d, ds)"

definition MatchString :: "regex \<Rightarrow> string \<Rightarrow> bool" where
  "MatchString r s = list_ex (\<lambda>st. matches r st \<noteq> []) (positions (None, s))"

subsection \<open>Docker commands in the shell steps\<close>

text \<open>\<open>(?:build|run|exec|ps|pull|push|tag|login)\<close>\<close>

definition docker_subcommand :: regex where
  "docker_subcommand =
     Alternate (Literal ''build'') (Alternate (Literal ''run'') (Alternate (Literal ''exec'')
       (Alternate (Literal ''ps'') (Alternate (Literal ''pull'') (Alternate (Literal ''push'')
         (Alternate (Literal ''tag'') (Literal ''login'')))))))"

text \<open>
  The three patterns of \<open>containerCommandPatterns\<close>:
  \<^verbatim>\<open>\bdocker[\s-](?:build|run|exec|ps|pull|push|tag|login)\b\<close>,
  \<^verbatim>\<open>\bdocker-compose\b\<close> and \<^verbatim>\<open>\bdocker\s+compose\b\<close>
\<close>

definition docker_subcommand_pattern :: regex where
  "docker_subcommand_pattern =
     Concat WordBoundary (Concat (Literal ''docker'') (Concat (CharClass (perl_space @ ''-''))
       (Concat docker_subcommand WordBoundary)))"

definition docker_compose_hyphen_pattern :: regex where
  "docker_compose_hyphen_pattern =
     Concat WordBoundary (Concat (Literal ''docker-compose'') WordBoundary)"

definition docker_compose_space_pattern :: regex where
  "docker_compose_space_pattern =
     Concat WordBoundary (Concat (Literal ''docker'') (Concat (OneOrMore perl_space)
       (Concat (Literal ''compose'') WordBoundary)))"

definition containerCommandPatterns :: "regex list" where
  "containerCommandPatterns =
     [docker_subcommand_pattern, docker_compose_hyphen_pattern, docker_compose_space_pattern]"

definition step_has_docker_command :: "(nat \<Rightarrow> nat) \<Rightarrow> Step \<Rightarrow> bool" where
  "step_has_docker_command lowerCase step =
     (if Run step = [] then False
      else (let runLower = ToLower lowerCase (Run step)
            in list_ex (\<lambda>pattern. MatchString pattern runLower) containerCommandPatterns))"

definition HasDockerCommands :: "(nat \<Rightarrow> nat) \<Rightarrow> Job \<Rightarrow> bool" where
  "HasDockerCommands lowerCase j = list_ex (step_has_docker_command lowerCase) (Steps j)"

section \<open>Command extraction\<close>

text \<open>
  An index or a slice expression out of range panics in Go. The functions that index a
  slice return \<open>Inl\<close> of the panic, so that each run-time check of the source is a
  branch of the model. Go's \<open>int\<close> is modelled by \<^typ>\<open>int\<close> (the indices are bounded
  by the length of a slice, so they never wrap).
\<close>

datatype panic = IndexOutOfRange | SliceBoundsOutOfRange

text \<open>\<open>xs[i]\<close> and \<open>xs[i:]\<close>\<close>

definition index_at :: "'a list \<Rightarrow> int \<Rightarrow> panic + 'a" where
  "index_at xs i = (if 0 \<le> i \<and> i < int (length xs) then Inr (xs ! nat i) else Inl IndexOutOfRange)"

definition slice_from :: "'a list \<Rightarrow> int \<Rightarrow> panic + 'a list" where
  "slice_from xs i =
     (if 0 \<le> i \<and> i \<le> int (length xs) then Inr (drop (nat i) xs) else Inl SliceBoundsOutOfRange)"

subsection \<open>splitCommandLine\<close>

definition separators :: "string list" where
  "separators = [''|'', ''&&'', ''||'', '';'', ''>>'', ''<<'', ''>'', ''<'']"

text \<open>The inner loops: every piece of every part, trimmed, is kept when it is not empty
  (both branches on \<open>i == 0\<close> append it).\<close>

definition split_part :: "string \<Rightarrow> string \<Rightarrow> string list" where
  "split_part sep part = filter (\<lambda>s. s \<noteq> []) (map TrimSpace (Split part sep))"

definition split_parts :: "string list \<Rightarrow> string \<Rightarrow> string list" where
  "split_parts parts sep = concat (map (split_part sep) parts)"

definition splitCommandLine :: "string \<Rightarrow> string list" where
  "splitCommandLine line = foldl split_parts [line] separators"

subsection \<open>extractCommandFromPart\<close>

text \<open>The first loop (the slice \<open>fields\<close> is \<open>flds\<close> here): \<open>startIndex\<close> moves over the leading fields that contain \<open>=\<close>.\<close>

function skip_assignments :: "string list \<Rightarrow> int \<Rightarrow> panic + int" where
  "skip_assignments flds startIndex =
     (if startIndex < int (length flds) then
        (case index_at flds startIndex of
           Inl e \<Rightarrow> Inl e
         | Inr field \<Rightarrow>
             if \<not> Contains field ''='' then Inr startIndex
             else skip_assignments flds (startIndex + 1))
      else Inr startIndex)"
  by pat_completeness auto
termination
  by (relation "measure (\<lambda>(flds, i). nat (int (length flds) - i))") auto

declare skip_assignments.simps [simp del]

definition prefixes :: "string list" where
  "prefixes = [''sudo'', ''env'', ''time'', ''nohup'', ''setsid'', ''stdbuf'']"

text \<open>The second loop: \<open>cmdStartIndex\<close> moves over the leading fields that are one of
  the prefixes (\<open>found\<close> is the result of the inner loop).\<close>

function skip_prefixes :: "string list \<Rightarrow> int \<Rightarrow> panic + int" where
  "skip_prefixes flds cmdStartIndex =
     (if cmdStartIndex < int (length flds) then
        (case index_at flds cmdStartIndex of
           Inl e \<Rightarrow> Inl e
         | Inr field \<Rightarrow>
             (let found = list_ex (\<lambda>prefix. field = prefix) prefixes
              in if \<not> found then Inr cmdStartIndex
                 else skip_prefixes flds (cmdStartIndex + 1)))
      else Inr cmdStartIndex)"
  by pat_completeness auto
termination
  by (relation "measure (\<lambda>(flds, i). nat (int (length flds) - i))") auto

declare skip_prefixes.simps [simp del]

text \<open>The second half of \<open>extractCommandFromPart\<close>, from the point where the fields are
  extracted again from the joined rest.\<close>

definition command_after_prefixes :: "string \<Rightarrow> panic + string" where
  "command_after_prefixes part =
     (let flds = Fields part in
      if length flds = 0 then Inr []
      else
        (case skip_prefixes flds 0 of
           Inl e \<Rightarrow> Inl e
         | Inr cmdStartIndex \<Rightarrow>
             if cmdStartIndex \<ge> int (length flds) then Inr []
             else index_at flds cmdStartIndex))"

text \<open>The first half: the fragment is trimmed and split into fields, the assignments are
  skipped, and the rest is joined with single blanks.\<close>

definition extractCommandFromPart :: "string \<Rightarrow> panic + string" where
  "extractCommandFromPart part0 =
     (let part = TrimSpace part0 in
      if part = [] then Inr []
      else
        (let flds = Fields part in
         if length flds = 0 then Inr []
         else
           (case skip_assignments flds 0 of
              Inl e \<Rightarrow> Inl e
            | Inr startIndex \<Rightarrow>
                if startIndex \<ge> int (length flds) then Inr []
                else
                  (case slice_from flds startIndex of
                     Inl e \<Rightarrow> Inl e
                   | Inr rest \<Rightarrow> command_after_prefixes (Join rest '' '')))))"

subsection \<open>normalizeCommand\<close>

definition normalizeCommand :: "string \<Rightarrow> panic + string" where
  "normalizeCommand cmd =
     (if cmd = [] then Inr []
      else if Contains cmd ''/'' then
        (let parts = Split cmd ''/'' in
         case index_at parts (int (length parts) - 1) of
           Inl e \<Rightarrow> Inl e
         | Inr cmd' \<Rightarrow> Inr (TrimSpace cmd'))
      else Inr (TrimSpace cmd))"

subsection \<open>extractCommands\<close>

fun extract_parts :: "string list \<Rightarrow> string list \<Rightarrow> panic + string list" where
  "extract_parts commands [] = Inr commands"
| "extract_parts commands (part # parts) =
     (case extractCommandFromPart part of
        Inl e \<Rightarrow> Inl e
      | Inr cmd \<Rightarrow> extract_parts (if cmd \<noteq> [] then commands @ [cmd] else commands) parts)"

fun extract_lines :: "string list \<Rightarrow> string list \<Rightarrow> panic + string list" where
  "extract_lines commands [] = Inr commands"
| "extract_lines commands (line0 # lines) =
     (let line = TrimSpace line0 in
      if line = [] then extract_lines commands lines
      else if HasPrefix line ''#'' then extract_lines commands lines
      else if HasPrefix line ''#!'' then extract_lines commands lines
      else
        (case extract_parts commands (splitCommandLine line) of
           Inl e \<Rightarrow> Inl e
         | Inr commands' \<Rightarrow> extract_lines commands' lines))"

definition extractCommands :: "string \<Rightarrow> panic + string list" where
  "extractCommands script = extract_lines [] (Split script [CHR 0x0A])"

subsection \<open>GetMissingCommands\<close>

text \<open>
  \<open>IsMissingInSlim\<close> is declared in another file of the package, which is not among the
  sources: the functions take it as a parameter, a predicate on command names. The
  state of the loops is the slice \<open>missingCommands\<close> and the map \<open>seen\<close>; the nil slice
  and the empty slice are both the empty list.
\<close>

type_synonym scan_state = "string list \<times> (string \<Rightarrow> bool)"

fun scan_commands :: "(string \<Rightarrow> bool) \<Rightarrow> scan_state \<Rightarrow> string list \<Rightarrow> panic + scan_state" where
  "scan_commands IsMissingInSlim st [] = Inr st"
| "scan_commands IsMissingInSlim (missingCommands, seen) (cmd # cmds) =
     (case normalizeCommand cmd of
        Inl e \<Rightarrow> Inl e
      | Inr cmdName \<Rightarrow>
          if cmdName = [] then scan_commands IsMissingInSlim (missingCommands, seen) cmds
          else if IsMissingInSlim cmdName \<and> \<not> seen cmdName
          then scan_commands IsMissingInSlim (missingCommands @ [cmdName], seen(cmdName := True)) cmds
          else scan_commands IsMissingInSlim (missingCommands, seen) cmds)"

fun scan_steps :: "(string \<Rightarrow> bool) \<Rightarrow> scan_state \<Rightarrow> Step list \<Rightarrow> panic + scan_state" where
  "scan_steps IsMissingInSlim st [] = Inr st"
| "scan_steps IsMissingInSlim st (step # steps) =
     (if Run step = [] then scan_steps IsMissingInSlim st steps
      else
        (case extractCommands (Run step) of
           Inl e \<Rightarrow> Inl e
         | Inr commands \<Rightarrow>
             (case scan_commands IsMissingInSlim st commands of
                Inl e \<Rightarrow> Inl e
              | Inr st' \<Rightarrow> scan_steps IsMissingInSlim st' steps)))"

definition GetMissingCommands :: "(string \<Rightarrow> bool) \<Rightarrow> Job \<Rightarrow> panic + string list" where
  "GetMissingCommands IsMissingInSlim j =
     (if \<not> IsUbuntuLatest j then Inr []
      else
        (case scan_steps IsMissingInSlim ([], \<lambda>_. False) (Steps j) of
           Inl e \<Rightarrow> Inl e
         | Inr st \<Rightarrow> Inr (fst st)))"

section \<open>Eligibility\<close>

text \<open>
  Modelled from the spec: \<open>isEligible\<close> of package \<open>scan\<close>, which is not among the
  sources (only its tests are). By section 4.2 of the specification a job is eligible
  when it passes the source-runner check and none of the four container criteria is
  violated (the duration bound is optional and skipped when no duration is supplied).
\<close>

definition isEligible :: "(nat \<Rightarrow> nat) \<Rightarrow> Job \<Rightarrow> bool" where
  "isEligible lowerCase j =
     (IsUbuntuLatest j \<and> \<not> HasDockerCommands lowerCase j \<and> \<not> HasContainerActions j \<and>
      \<not> HasServices j \<and> \<not> HasContainer j)"

text \<open>
  The runner labels that a job declares, in the words of the specification
  (\<open>RunnerLabels\<close>, section 4.1): the label of the scalar form, the string items of the
  sequence form, and none when the runner spec is absent.
\<close>

fun item_labels :: "go_value \<Rightarrow> string list" where
  "item_labels (String s) = [s]"
| "item_labels _ = []"

fun RunnerLabels :: "go_value \<Rightarrow> string list" where
  "RunnerLabels (String v) = [v]"
| "RunnerLabels (Slice items) = concat (map item_labels items)"
| "RunnerLabels _ = []"

section \<open>Docker invocations in the words of the specification\<close>

text \<open>
  The specification describes what the patterns are meant to find: an invocation of a
  docker subcommand or of compose, as a token of the lower-cased shell text. The
  definitions below say this about the text itself, without the matcher: the text
  splits into what comes before, the invocation, and what comes after, with no word
  character right before or right after the invocation.
\<close>

text \<open>A word character stands at the end of \<open>pre\<close>, at the start of \<open>post\<close>.\<close>

definition ends_in_word :: "string \<Rightarrow> bool" where
  "ends_in_word pre = (pre \<noteq> [] \<and> is_word_char (last pre))"

definition starts_with_word :: "string \<Rightarrow> bool" where
  "starts_with_word post = (post \<noteq> [] \<and> is_word_char (hd post))"

text \<open>The character before a position, after the text \<open>w\<close> has been read.\<close>

definition last_char :: "char option \<Rightarrow> string \<Rightarrow> char option" where
  "last_char prev w = (if w = [] then prev else Some (last w))"

text \<open>The subcommands, as the pattern of the source spells them.\<close>

definition docker_subcommands :: "string list" where
  "docker_subcommands = [''build'', ''run'', ''exec'', ''ps'', ''pull'', ''push'', ''tag'', ''login'']"

definition docker_subcommand_invocation :: "string \<Rightarrow> bool" where
  "docker_subcommand_invocation text =
     (\<exists>pre sep sub post. text = pre @ ''docker'' @ sep # sub @ post \<and> \<not> ends_in_word pre \<and>
        sep \<in> set (perl_space @ ''-'') \<and> sub \<in> set docker_subcommands \<and>
        \<not> starts_with_word post)"

definition docker_compose_hyphenated :: "string \<Rightarrow> bool" where
  "docker_compose_hyphenated text =
     (\<exists>pre post. text = pre @ ''docker-compose'' @ post \<and> \<not> ends_in_word pre \<and>
        \<not> starts_with_word post)"

definition docker_compose_spaced :: "string \<Rightarrow> bool" where
  "docker_compose_spaced text =
     (\<exists>pre ws post. text = pre @ ''docker'' @ ws @ ''compose'' @ post \<and> \<not> ends_in_word pre \<and>
        ws \<noteq> [] \<and> set ws \<subseteq> set perl_space \<and> \<not> starts_with_word post)"

definition invokes_docker :: "string \<Rightarrow> bool" where
  "invokes_docker text =
     (docker_subcommand_invocation text \<or> docker_compose_hyphenated text \<or>
      docker_compose_spaced text)"

text \<open>Every occurrence of \<open>w\<close> in \<open>s\<close> has a word character right before or right after
  it (a check that runs; \<open>inside_words_iff\<close> below says what it decides).\<close>

definition inside_words :: "string \<Rightarrow> string \<Rightarrow> bool" where
  "inside_words w s =
     list_all (\<lambda>st. case consume w st of None \<Rightarrow> True | Some st' \<Rightarrow> word_before st \<or> word_after st')
       (positions (None, s))"

section \<open>Command extraction in the words of the specification\<close>

text \<open>No white-space rune starts inside \<open>t\<close> when \<open>s\<close> follows it: what holds of the
  fields that \<open>strings.Fields\<close> returns.\<close>

fun no_space_in :: "string \<Rightarrow> string \<Rightarrow> bool" where
  "no_space_in [] s = True"
| "no_space_in (c # cs) s = (space_width (c # cs @ s) = 0 \<and> no_space_in cs s)"

text \<open>
  Steps 3 to 5 of the extraction algorithm (section 4.3): skip the leading assignments
  (tokens that contain \<open>=\<close>), then the leading wrapper prefixes; the first token that
  remains is the command, and a fragment with no token left yields no command (the empty
  string).
\<close>

definition is_assignment :: "string \<Rightarrow> bool" where
  "is_assignment tok = Contains tok ''=''"

definition is_wrapper :: "string \<Rightarrow> bool" where
  "is_wrapper tok = (tok \<in> set prefixes)"

definition first_command :: "string list \<Rightarrow> string" where
  "first_command toks =
     (case dropWhile is_wrapper (dropWhile is_assignment toks) of [] \<Rightarrow> [] | cmd # _ \<Rightarrow> cmd)"

text \<open>Steps 1 and 2: a blank line and a comment line yield nothing; any other line is
  split into fragments, and each fragment yields at most one command.\<close>

definition fragment_command :: "string \<Rightarrow> string" where
  "fragment_command part = first_command (Fields (TrimSpace part))"

definition line_commands :: "string \<Rightarrow> string list" where
  "line_commands line0 =
     (let line = TrimSpace line0 in
      if line = [] \<or> HasPrefix line ''#'' then []
      else filter (\<lambda>cmd. cmd \<noteq> []) (map fragment_command (splitCommandLine line)))"

text \<open>A script of variable assignments only: every token of every fragment of every
  line contains \<open>=\<close>.\<close>

definition only_assignments :: "string \<Rightarrow> bool" where
  "only_assignments script =
     (\<forall>line \<in> set (Split script [CHR 0x0A]).
        \<forall>part \<in> set (splitCommandLine (TrimSpace line)).
          \<forall>tok \<in> set (Fields (TrimSpace part)). Contains tok ''='')"


section \<open>The source-runner check\<close>

lemma item_is_ubuntu_latest_iff:
  "item_is_ubuntu_latest item \<longleftrightarrow> ''ubuntu-latest'' \<in> set (item_labels item)"
  by (cases item) auto

lemma IsUbuntuLatest_value_iff:
  "IsUbuntuLatest_value v \<longleftrightarrow> ''ubuntu-latest'' \<in> set (RunnerLabels v)"
  by (cases v) (auto simp: list_ex_iff item_is_ubuntu_latest_iff)

text \<open>
  Claim C1. The source-runner check holds exactly when one of the declared runner labels
  is the string \<open>ubuntu-latest\<close>, in the scalar and in the sequence form. A label that
  only starts with \<open>ubuntu-latest\<close> does not pass, and a job with no runner spec fails
  the check, so it is not eligible.
\<close>

theorem IsUbuntuLatest_exact_label:
  "(IsUbuntuLatest j \<longleftrightarrow> ''ubuntu-latest'' \<in> set (RunnerLabels (RunsOn j))) \<and>
   (RunsOn j = String l \<longrightarrow> (IsUbuntuLatest j \<longleftrightarrow> l = ''ubuntu-latest'')) \<and>
   (RunsOn j = Slice items \<longrightarrow> (IsUbuntuLatest j \<longleftrightarrow> String ''ubuntu-latest'' \<in> set items)) \<and>
   (RunsOn j = String (''ubuntu-latest'' @ c # suffix) \<longrightarrow> \<not> IsUbuntuLatest j) \<and>
   (RunsOn j = Slice [String (''ubuntu-latest'' @ c # suffix)] \<longrightarrow> \<not> IsUbuntuLatest j) \<and>
   (RunsOn j = Nil \<longrightarrow> \<not> IsUbuntuLatest j \<and> \<not> isEligible lowerCase j)"
proof -
  have scalar: "RunsOn j = String l \<longrightarrow> (IsUbuntuLatest j \<longleftrightarrow> l = ''ubuntu-latest'')" for l
    by (simp add: IsUbuntuLatest_def)
  have "item_is_ubuntu_latest item \<longleftrightarrow> item = String ''ubuntu-latest''" for item
    by (cases item) auto
  then have seq: "RunsOn j = Slice items \<longrightarrow>
      (IsUbuntuLatest j \<longleftrightarrow> String ''ubuntu-latest'' \<in> set items)" for items
    by (auto simp: IsUbuntuLatest_def list_ex_iff)
  have nil: "RunsOn j = Nil \<longrightarrow> \<not> IsUbuntuLatest j \<and> \<not> isEligible lowerCase j"
    by (simp add: IsUbuntuLatest_def isEligible_def)
  show ?thesis
    using scalar [of "''ubuntu-latest'' @ c # suffix"] seq [of "[String (''ubuntu-latest'' @ c # suffix)]"]
      scalar [of l] seq [of items] nil
    by (simp add: IsUbuntuLatest_def IsUbuntuLatest_value_iff)
qed

theorem IsUbuntuLatest_exact_label_witness:
  "IsUbuntuLatest \<lparr>RunsOn = Slice [String ''macos-latest'', String ''ubuntu-latest''],
      Steps = [], Services = Nil, Container = Nil\<rparr> \<and>
   \<not> IsUbuntuLatest \<lparr>RunsOn = String ''ubuntu-latest-xl'', Steps = [], Services = Nil,
      Container = Nil\<rparr> \<and>
   \<not> IsUbuntuLatest \<lparr>RunsOn = Slice [String ''ubuntu-latest-xl''], Steps = [],
      Services = Nil, Container = Nil\<rparr> \<and>
   \<not> isEligible lowerCase_into_ASCII \<lparr>RunsOn = Nil, Steps = [], Services = Nil, Container = Nil\<rparr>"
  using
    IsUbuntuLatest_exact_label [of "\<lparr>RunsOn = Slice [String ''macos-latest'', String ''ubuntu-latest''],
      Steps = [], Services = Nil, Container = Nil\<rparr>" "''x''" "[String ''macos-latest'', String ''ubuntu-latest'']" "CHR ''-''" "''xl''" lowerCase_into_ASCII]
    IsUbuntuLatest_exact_label [of "\<lparr>RunsOn = String ''ubuntu-latest-xl'', Steps = [], Services = Nil,
      Container = Nil\<rparr>" "''x''" "[]" "CHR ''-''" "''xl''" lowerCase_into_ASCII]
    IsUbuntuLatest_exact_label [of "\<lparr>RunsOn = Slice [String ''ubuntu-latest-xl''], Steps = [],
      Services = Nil, Container = Nil\<rparr>" "''x''" "[]" "CHR ''-''" "''xl''" lowerCase_into_ASCII]
    IsUbuntuLatest_exact_label [of "\<lparr>RunsOn = Nil, Steps = [], Services = Nil, Container = Nil\<rparr>"
      "''x''" "[]" "CHR ''-''" "''xl''" lowerCase_into_ASCII]
  by simp

section \<open>Container actions\<close>

lemma HasContainerActions_iff:
  "HasContainerActions j \<longleftrightarrow>
     (\<exists>step \<in> set (Steps j). Uses step \<noteq> [] \<and> HasPrefix (Uses step) ''docker'')"
  by (auto simp: HasContainerActions_def step_has_container_action_def
      containerActionPrefixes_def list_ex_iff)

lemma HasPrefix_append: "HasPrefix (p @ rest) p"
  by (simp add: HasPrefix_def)

text \<open>
  Claim C4. A job with a step whose action reference begins with \<open>docker\<close> is flagged,
  whatever follows the prefix: the scheme form \<open>docker://target\<close> and the organization
  form \<open>docker/name@ref\<close> are both caught by the one prefix of the table, \<open>docker\<close>.
\<close>

theorem HasContainerActions_docker_prefix:
  "(HasContainerActions j \<longleftrightarrow>
      (\<exists>step \<in> set (Steps j). Uses step \<noteq> [] \<and> HasPrefix (Uses step) ''docker'')) \<and>
   (step \<in> set (Steps j) \<and> Uses step = ''docker'' @ rest \<longrightarrow> HasContainerActions j) \<and>
   (step \<in> set (Steps j) \<and> Uses step = ''docker://'' @ target \<longrightarrow> HasContainerActions j) \<and>
   (step \<in> set (Steps j) \<and> Uses step = ''docker/'' @ name_ref \<longrightarrow> HasContainerActions j) \<and>
   containerActionPrefixes = [''docker'']"
proof -
  have any: "step \<in> set (Steps j) \<and> Uses step = ''docker'' @ rest \<longrightarrow> HasContainerActions j"
    for rest
    using HasPrefix_append [of "''docker''" rest] by (auto simp: HasContainerActions_iff intro!: bexI [of _ step])
  show ?thesis
    using any [of rest] any [of "''://'' @ target"] any [of "''/'' @ name_ref"]
    by (simp add: HasContainerActions_iff containerActionPrefixes_def)
qed

theorem HasContainerActions_docker_prefix_witness:
  "HasContainerActions \<lparr>RunsOn = String ''ubuntu-latest'',
      Steps = [\<lparr>Run = [], Uses = ''actions/checkout@v4''\<rparr>, \<lparr>Run = [], Uses = ''docker://alpine:latest''\<rparr>],
      Services = Nil, Container = Nil\<rparr> \<and>
   HasContainerActions \<lparr>RunsOn = String ''ubuntu-latest'',
      Steps = [\<lparr>Run = [], Uses = ''docker/build-push-action@v6''\<rparr>],
      Services = Nil, Container = Nil\<rparr>"
  using
    HasContainerActions_docker_prefix [of "\<lparr>RunsOn = String ''ubuntu-latest'',
      Steps = [\<lparr>Run = [], Uses = ''actions/checkout@v4''\<rparr>, \<lparr>Run = [], Uses = ''docker://alpine:latest''\<rparr>],
      Services = Nil, Container = Nil\<rparr>" "\<lparr>Run = [], Uses = ''docker://alpine:latest''\<rparr>"
      "''://alpine:latest''" "''alpine:latest''" "''x''"]
    HasContainerActions_docker_prefix [of "\<lparr>RunsOn = String ''ubuntu-latest'',
      Steps = [\<lparr>Run = [], Uses = ''docker/build-push-action@v6''\<rparr>],
      Services = Nil, Container = Nil\<rparr>" "\<lparr>Run = [], Uses = ''docker/build-push-action@v6''\<rparr>"
      "''/build-push-action@v6''" "''x''" "''build-push-action@v6''"]
  by (simp add: HasPrefix_def)

section \<open>Services\<close>

text \<open>
  Claim C5, as the specification states it, asks \<open>HasServices\<close> to be false for a
  services field that is present and an empty mapping. The source tests the field
  against nil only, so a present, empty mapping counts as services.
\<close>

theorem HasServices_empty_mapping_counterexample:
  "HasServices \<lparr>RunsOn = String ''ubuntu-latest'', Steps = [], Services = Map [],
      Container = Nil\<rparr>"
  by (simp add: HasServices_def)

text \<open>
  Claim C5, amended. \<open>HasServices\<close> holds exactly when the services field is not nil: a
  present field counts in every form, the empty mapping included, and what the field
  holds is not inspected (any two values other than nil give the same answer).
\<close>

theorem HasServices_iff_present:
  "(HasServices j \<longleftrightarrow> Services j \<noteq> Nil) \<and>
   (Services j = Map [] \<longrightarrow> HasServices j) \<and>
   (v \<noteq> Nil \<and> w \<noteq> Nil \<longrightarrow> HasServices (j\<lparr>Services := v\<rparr>) = HasServices (j\<lparr>Services := w\<rparr>))"
  by (simp add: HasServices_def)

theorem HasServices_iff_present_witness:
  "HasServices \<lparr>RunsOn = String ''ubuntu-latest'', Steps = [], Services = Map [], Container = Nil\<rparr> \<and>
   HasServices \<lparr>RunsOn = String ''ubuntu-latest'', Steps = [],
      Services = Map [(''postgres'', Map [(''image'', String ''postgres:14'')])], Container = Nil\<rparr> \<and>
   \<not> HasServices \<lparr>RunsOn = String ''ubuntu-latest'', Steps = [], Services = Nil, Container = Nil\<rparr>"
  using
    HasServices_iff_present [of "\<lparr>RunsOn = String ''ubuntu-latest'', Steps = [], Services = Map [], Container = Nil\<rparr>"
      "Map []" "Map [(''postgres'', Map [(''image'', String ''postgres:14'')])]"]
    HasServices_iff_present [of "\<lparr>RunsOn = String ''ubuntu-latest'', Steps = [], Services = Nil, Container = Nil\<rparr>"
      "Map []" "Map []"]
  by (simp add: HasServices_def)

section \<open>Docker commands\<close>

lemma positions_iff:
  "st \<in> set (positions (p0, s)) \<longleftrightarrow> (\<exists>pre. s = pre @ snd st \<and> fst st = last_char p0 pre)"
proof (induction s arbitrary: p0)
  case Nil
  then show ?case by (cases st) (auto simp: last_char_def)
next
  case (Cons d ds)
  show ?case
  proof
    assume "st \<in> set (positions (p0, d # ds))"
    then consider "st = (p0, d # ds)" | "st \<in> set (positions (Some d, ds))" by auto
    then show "\<exists>pre. d # ds = pre @ snd st \<and> fst st = last_char p0 pre"
    proof cases
      case 1
      then show ?thesis by (intro exI [of _ "[]"]) (simp add: last_char_def)
    next
      case 2
      then obtain pre where "ds = pre @ snd st" "fst st = last_char (Some d) pre"
        using Cons.IH by blast
      then show ?thesis by (intro exI [of _ "d # pre"]) (simp add: last_char_def)
    qed
  next
    assume "\<exists>pre. d # ds = pre @ snd st \<and> fst st = last_char p0 pre"
    then obtain pre where pre: "d # ds = pre @ snd st" "fst st = last_char p0 pre" by blast
    show "st \<in> set (positions (p0, d # ds))"
    proof (cases pre)
      case Nil
      with pre show ?thesis by (cases st) (simp add: last_char_def)
    next
      case (Cons e pre')
      with pre have "ds = pre' @ snd st" "fst st = last_char (Some d) pre'"
        by (auto simp: last_char_def)
      then have "st \<in> set (positions (Some d, ds))" using Cons.IH by blast
      then show ?thesis by simp
    qed
  qed
qed

lemma consume_iff:
  "consume w (p, r) = Some st' \<longleftrightarrow> (\<exists>r'. r = w @ r' \<and> st' = (last_char p w, r'))"
proof (induction w arbitrary: p r)
  case Nil
  then show ?case by (auto simp: last_char_def)
next
  case (Cons c cs)
  show ?case
  proof (cases r)
    case Nil
    then show ?thesis by simp
  next
    case (Cons d ds)
    then show ?thesis using Cons.IH [of "Some d" ds] by (auto simp: last_char_def)
  qed
qed

lemma repeat_class_iff:
  "st' \<in> set (repeat_class cls (p, r)) \<longleftrightarrow>
     (\<exists>ws r'. ws \<noteq> [] \<and> set ws \<subseteq> set cls \<and> r = ws @ r' \<and> st' = (Some (last ws), r'))"
proof (induction r arbitrary: p)
  case Nil
  then show ?case by simp
next
  case (Cons d ds)
  show ?case
  proof (cases "d \<in> set cls")
    case False
    then show ?thesis by (auto simp: Cons_eq_append_conv)
  next
    case True
    show ?thesis
    proof
      assume "st' \<in> set (repeat_class cls (p, d # ds))"
      with True consider "st' = (Some d, ds)" | "st' \<in> set (repeat_class cls (Some d, ds))" by auto
      then show "\<exists>ws r'. ws \<noteq> [] \<and> set ws \<subseteq> set cls \<and> d # ds = ws @ r' \<and> st' = (Some (last ws), r')"
      proof cases
        case 1
        with True show ?thesis by (intro exI [of _ "[d]"] exI [of _ ds]) simp
      next
        case 2
        then obtain ws r' where "ws \<noteq> []" "set ws \<subseteq> set cls" "ds = ws @ r'" "st' = (Some (last ws), r')"
          using Cons.IH by blast
        with True show ?thesis by (intro exI [of _ "d # ws"] exI [of _ r']) simp
      qed
    next
      assume "\<exists>ws r'. ws \<noteq> [] \<and> set ws \<subseteq> set cls \<and> d # ds = ws @ r' \<and> st' = (Some (last ws), r')"
      then obtain ws r' where ws: "ws \<noteq> []" "set ws \<subseteq> set cls" "d # ds = ws @ r'" "st' = (Some (last ws), r')"
        by blast
      then obtain ws' where ws': "ws = d # ws'" by (cases ws) auto
      show "st' \<in> set (repeat_class cls (p, d # ds))"
      proof (cases "ws' = []")
        case True
        with ws ws' \<open>d \<in> set cls\<close> show ?thesis by simp
      next
        case False
        with ws ws' have "st' \<in> set (repeat_class cls (Some d, ds))"
          using Cons.IH [of "Some d"] by auto
        with \<open>d \<in> set cls\<close> show ?thesis by simp
      qed
    qed
  qed
qed

lemma matches_WordBoundary_iff:
  "st' \<in> set (matches WordBoundary st) \<longleftrightarrow> st' = st \<and> word_before st \<noteq> word_after st"
  by auto

lemma matches_Literal_iff:
  "st' \<in> set (matches (Literal w) (p, r)) \<longleftrightarrow> (\<exists>r'. r = w @ r' \<and> st' = (last_char p w, r'))"
  using consume_iff [of w p r st'] by (auto split: option.splits)

lemma matches_CharClass_iff:
  "st' \<in> set (matches (CharClass cls) (p, r)) \<longleftrightarrow>
     (\<exists>d r'. r = d # r' \<and> d \<in> set cls \<and> st' = (Some d, r'))"
  by (auto split: list.splits)

lemma matches_OneOrMore_iff:
  "st' \<in> set (matches (OneOrMore cls) (p, r)) \<longleftrightarrow>
     (\<exists>ws r'. ws \<noteq> [] \<and> set ws \<subseteq> set cls \<and> r = ws @ r' \<and> st' = (Some (last ws), r'))"
  by (simp add: repeat_class_iff)

lemma matches_Concat_iff:
  "st' \<in> set (matches (Concat a b) st) \<longleftrightarrow> (\<exists>m \<in> set (matches a st). st' \<in> set (matches b m))"
  by auto

lemma matches_Alternate_iff:
  "st' \<in> set (matches (Alternate a b) st) \<longleftrightarrow>
     st' \<in> set (matches a st) \<or> st' \<in> set (matches b st)"
  by auto

lemma docker_subcommand_alternatives:
  "st' \<in> set (matches docker_subcommand st) \<longleftrightarrow>
     (\<exists>sub \<in> set docker_subcommands. st' \<in> set (matches (Literal sub) st))"
  unfolding docker_subcommand_def docker_subcommands_def
  by (simp only: matches_Alternate_iff list.set bex_simps insert_iff Bex_def ex_disj_distrib
      conj_disj_distribR empty_iff simp_thms)

lemma docker_subcommands_nonempty: "sub \<in> set docker_subcommands \<Longrightarrow> sub \<noteq> []"
  by (auto simp: docker_subcommands_def)

lemma matches_docker_subcommand_iff:
  "st' \<in> set (matches docker_subcommand (p, r)) \<longleftrightarrow>
     (\<exists>sub r'. sub \<in> set docker_subcommands \<and> r = sub @ r' \<and> st' = (Some (last sub), r'))"
  unfolding docker_subcommand_alternatives matches_Literal_iff
  using docker_subcommands_nonempty by (fastforce simp: last_char_def)

lemmas matches_iffs = matches_Concat_iff matches_WordBoundary_iff matches_Literal_iff
  matches_CharClass_iff matches_OneOrMore_iff matches_docker_subcommand_iff

lemma word_after_Cons: "word_after (p, c # r) = is_word_char c"
  by (simp add: word_after_def)

lemma word_after_eq: "word_after (p, r) = starts_with_word r"
  by (cases r) (auto simp: word_after_def starts_with_word_def)

lemma word_before_Some: "word_before (Some c, r) = is_word_char c"
  by (simp add: word_before_def)

lemma docker_subcommands_word: "sub \<in> set docker_subcommands \<Longrightarrow> is_word_char (last sub)"
  by (auto simp: docker_subcommands_def is_word_char_def)

lemma is_word_char_d: "is_word_char (CHR ''d'')"
  by (simp add: is_word_char_def)

lemma starts_with_word_Cons: "starts_with_word (c # r) = is_word_char c"
  by (simp add: starts_with_word_def)

lemmas boundary_simps = word_after_eq starts_with_word_Cons word_before_Some
  docker_subcommands_word is_word_char_d

lemma docker_subcommand_pattern_iff:
  "(\<exists>st'. st' \<in> set (matches docker_subcommand_pattern (p, r))) \<longleftrightarrow>
     \<not> word_before (p, r) \<and>
     (\<exists>sep sub post. r = ''docker'' @ sep # sub @ post \<and> sep \<in> set (perl_space @ ''-'') \<and>
        sub \<in> set docker_subcommands \<and> \<not> starts_with_word post)"
  unfolding docker_subcommand_pattern_def
  apply (simp add: matches_iffs Bex_def last_char_def del: matches.simps)
  apply (rule iffI)
   apply (clarsimp simp: boundary_simps)
   apply blast
  apply (clarsimp simp: boundary_simps)
  subgoal for sep sub post
    by (rule exI [of _ "Some (last sub)"], rule exI [of _ post]) (auto simp: boundary_simps)
  done

lemma is_word_char_e: "is_word_char (CHR ''e'')"
  by (simp add: is_word_char_def)

lemma docker_compose_hyphen_pattern_iff:
  "(\<exists>st'. st' \<in> set (matches docker_compose_hyphen_pattern (p, r))) \<longleftrightarrow>
     \<not> word_before (p, r) \<and> (\<exists>post. r = ''docker-compose'' @ post \<and> \<not> starts_with_word post)"
  unfolding docker_compose_hyphen_pattern_def
  by (auto simp: matches_iffs Bex_def last_char_def boundary_simps is_word_char_e simp del: matches.simps)

lemma docker_compose_space_pattern_iff:
  "(\<exists>st'. st' \<in> set (matches docker_compose_space_pattern (p, r))) \<longleftrightarrow>
     \<not> word_before (p, r) \<and>
     (\<exists>ws post. r = ''docker'' @ ws @ ''compose'' @ post \<and> ws \<noteq> [] \<and>
        set ws \<subseteq> set perl_space \<and> \<not> starts_with_word post)"
  unfolding docker_compose_space_pattern_def
  apply (simp add: matches_iffs Bex_def last_char_def del: matches.simps)
  apply (rule iffI)
   apply (clarsimp simp: boundary_simps is_word_char_e)
   apply blast
  apply (clarsimp simp: boundary_simps is_word_char_e)
  apply blast
  done

lemma word_before_last_char: "word_before (last_char None pre, rest) = ends_in_word pre"
  by (simp add: word_before_def last_char_def ends_in_word_def)

lemma MatchString_iff:
  "MatchString r s \<longleftrightarrow>
     (\<exists>pre rest. s = pre @ rest \<and> (\<exists>st'. st' \<in> set (matches r (last_char None pre, rest))))"
proof -
  have "MatchString r s \<longleftrightarrow> (\<exists>st \<in> set (positions (None, s)). \<exists>st'. st' \<in> set (matches r st))"
  proof -
    have "xs \<noteq> [] \<longleftrightarrow> (\<exists>x. x \<in> set xs)" for xs :: "match_state list"
      by (cases xs) auto
    then show ?thesis by (simp only: MatchString_def list_ex_iff)
  qed
  also have "\<dots> \<longleftrightarrow> (\<exists>st. (\<exists>pre. s = pre @ snd st \<and> fst st = last_char None pre) \<and>
      (\<exists>st'. st' \<in> set (matches r st)))"
    by (simp only: Bex_def positions_iff)
  also have "\<dots> \<longleftrightarrow> (\<exists>pre rest. s = pre @ rest \<and>
      (\<exists>st'. st' \<in> set (matches r (last_char None pre, rest))))"
    by auto
  finally show ?thesis .
qed

lemma MatchString_docker_subcommand_pattern:
  "MatchString docker_subcommand_pattern text \<longleftrightarrow> docker_subcommand_invocation text"
  unfolding MatchString_iff docker_subcommand_pattern_iff word_before_last_char docker_subcommand_invocation_def
  by blast

lemma MatchString_docker_compose_hyphen_pattern:
  "MatchString docker_compose_hyphen_pattern text \<longleftrightarrow> docker_compose_hyphenated text"
  unfolding MatchString_iff docker_compose_hyphen_pattern_iff word_before_last_char docker_compose_hyphenated_def
  by blast

lemma MatchString_docker_compose_space_pattern:
  "MatchString docker_compose_space_pattern text \<longleftrightarrow> docker_compose_spaced text"
  unfolding MatchString_iff docker_compose_space_pattern_iff word_before_last_char docker_compose_spaced_def
  by blast

lemma invokes_docker_nonempty: "invokes_docker text \<Longrightarrow> text \<noteq> []"
  by (auto simp: invokes_docker_def docker_subcommand_invocation_def docker_compose_hyphenated_def
      docker_compose_spaced_def)

lemma step_has_docker_command_iff:
  "step_has_docker_command lowerCase step \<longleftrightarrow> invokes_docker (ToLower lowerCase (Run step))"
proof (cases "Run step = []")
  case True
  then show ?thesis
    using invokes_docker_nonempty [of "ToLower lowerCase (Run step)"]
    by (auto simp: step_has_docker_command_def ToLower_def isASCII_def)
next
  case False
  then show ?thesis
    by (simp add: step_has_docker_command_def containerCommandPatterns_def invokes_docker_def Let_def
        MatchString_docker_subcommand_pattern MatchString_docker_compose_hyphen_pattern
        MatchString_docker_compose_space_pattern)
qed

lemma HasDockerCommands_iff:
  "HasDockerCommands lowerCase j \<longleftrightarrow> (\<exists>step \<in> set (Steps j). invokes_docker (ToLower lowerCase (Run step)))"
  by (simp add: HasDockerCommands_def list_ex_iff step_has_docker_command_iff)

text \<open>
  Claim C2, as the specification states it, lists \<open>list\<close> among the subcommands. The
  pattern of the source spells the listing subcommand \<open>ps\<close>: a step that runs
  \<open>docker list\<close> is not flagged, and a step that runs \<open>docker ps\<close> is. The class
  \<open>[\s-]\<close> stands for one character: with two blanks between \<open>docker\<close> and \<open>build\<close>
  the step is not flagged either.
\<close>

theorem HasDockerCommands_list_counterexample:
  "\<not> HasDockerCommands lowerCase_into_ASCII \<lparr>RunsOn = String ''ubuntu-latest'',
      Steps = [\<lparr>Run = ''docker list'', Uses = []\<rparr>], Services = Nil, Container = Nil\<rparr> \<and>
   HasDockerCommands lowerCase_into_ASCII \<lparr>RunsOn = String ''ubuntu-latest'',
      Steps = [\<lparr>Run = ''docker ps'', Uses = []\<rparr>], Services = Nil, Container = Nil\<rparr> \<and>
   \<not> HasDockerCommands lowerCase_into_ASCII \<lparr>RunsOn = String ''ubuntu-latest'',
      Steps = [\<lparr>Run = ''docker  build'', Uses = []\<rparr>], Services = Nil, Container = Nil\<rparr>"
  by code_simp

text \<open>
  Claim C2, amended. \<open>HasDockerCommands\<close> flags a job exactly when the lower-cased text of
  some shell step contains, starting and ending at a word boundary, \<open>docker\<close> followed by
  one white-space character or a hyphen and one of \<open>build\<close>, \<open>run\<close>, \<open>exec\<close>, \<open>ps\<close>,
  \<open>pull\<close>, \<open>push\<close>, \<open>tag\<close>, \<open>login\<close>, or \<open>docker-compose\<close>, or \<open>docker\<close> followed by
  one or more white-space characters and \<open>compose\<close>. The lower-cased text is the result
  of \<open>strings.ToLower\<close>, with whatever case table.
\<close>

theorem HasDockerCommands_iff_invocation:
  "HasDockerCommands lowerCase j \<longleftrightarrow>
     (\<exists>step \<in> set (Steps j).
        docker_subcommand_invocation (ToLower lowerCase (Run step)) \<or>
        docker_compose_hyphenated (ToLower lowerCase (Run step)) \<or>
        docker_compose_spaced (ToLower lowerCase (Run step)))"
  by (simp add: HasDockerCommands_iff invokes_docker_def)

theorem HasDockerCommands_iff_invocation_witness:
  "HasDockerCommands lowerCase_into_ASCII \<lparr>RunsOn = String ''ubuntu-latest'',
      Steps = [\<lparr>Run = ''sudo Docker run app'', Uses = []\<rparr>], Services = Nil, Container = Nil\<rparr> \<and>
   HasDockerCommands lowerCase_into_ASCII \<lparr>RunsOn = String ''ubuntu-latest'',
      Steps = [\<lparr>Run = ''doc'' @ [CHR 0xE2, CHR 0x84, CHR 0xAA] @ ''er build'', Uses = []\<rparr>],
      Services = Nil, Container = Nil\<rparr>"
proof -
  have low: "ToLower lowerCase_into_ASCII ''sudo Docker run app'' = ''sudo docker run app''"
    by code_simp
  have "docker_subcommand_invocation ''sudo docker run app''"
    unfolding docker_subcommand_invocation_def
    by (intro exI [of _ "''sudo ''"] exI [of _ "CHR '' ''"] exI [of _ "''run''"] exI [of _ "'' app''"])
      (simp add: ends_in_word_def starts_with_word_def is_word_char_def perl_space_def
        docker_subcommands_def)
  then have 1: "HasDockerCommands lowerCase_into_ASCII \<lparr>RunsOn = String ''ubuntu-latest'',
      Steps = [\<lparr>Run = ''sudo Docker run app'', Uses = []\<rparr>], Services = Nil, Container = Nil\<rparr>"
    using HasDockerCommands_iff_invocation [of lowerCase_into_ASCII "\<lparr>RunsOn = String ''ubuntu-latest'',
      Steps = [\<lparr>Run = ''sudo Docker run app'', Uses = []\<rparr>], Services = Nil, Container = Nil\<rparr>"] low
    by simp
  have kelvin: "ToLower lowerCase_into_ASCII (''doc'' @ [CHR 0xE2, CHR 0x84, CHR 0xAA] @ ''er build'') =
      ''docker build''"
    by code_simp
  have "docker_subcommand_invocation ''docker build''"
    unfolding docker_subcommand_invocation_def
    by (intro exI [of _ "[]"] exI [of _ "CHR '' ''"] exI [of _ "''build''"] exI [of _ "[]"])
      (simp add: ends_in_word_def starts_with_word_def perl_space_def docker_subcommands_def)
  then have 2: "HasDockerCommands lowerCase_into_ASCII \<lparr>RunsOn = String ''ubuntu-latest'',
      Steps = [\<lparr>Run = ''doc'' @ [CHR 0xE2, CHR 0x84, CHR 0xAA] @ ''er build'', Uses = []\<rparr>],
      Services = Nil, Container = Nil\<rparr>"
    using HasDockerCommands_iff_invocation [of lowerCase_into_ASCII "\<lparr>RunsOn = String ''ubuntu-latest'',
      Steps = [\<lparr>Run = ''doc'' @ [CHR 0xE2, CHR 0x84, CHR 0xAA] @ ''er build'', Uses = []\<rparr>],
      Services = Nil, Container = Nil\<rparr>"] kelvin
    by simp
  from 1 2 show ?thesis by blast
qed

lemma inside_words_iff:
  "inside_words w s \<longleftrightarrow>
     (\<forall>pre post. s = pre @ w @ post \<longrightarrow> ends_in_word pre \<or> starts_with_word post)"
proof
  assume iw: "inside_words w s"
  show "\<forall>pre post. s = pre @ w @ post \<longrightarrow> ends_in_word pre \<or> starts_with_word post"
  proof (intro allI impI)
    fix pre post
    assume s: "s = pre @ w @ post"
    then have "(last_char None pre, w @ post) \<in> set (positions (None, s))"
      by (auto simp: positions_iff)
    moreover have "consume w (last_char None pre, w @ post) = Some (last_char (last_char None pre) w, post)"
      by (simp add: consume_iff)
    ultimately have "word_before (last_char None pre, w @ post) \<or>
        word_after (last_char (last_char None pre) w, post)"
      using iw by (auto simp: inside_words_def list_all_iff)
    then show "ends_in_word pre \<or> starts_with_word post"
      by (simp add: word_before_last_char word_after_eq)
  qed
next
  assume r: "\<forall>pre post. s = pre @ w @ post \<longrightarrow> ends_in_word pre \<or> starts_with_word post"
  show "inside_words w s"
    unfolding inside_words_def list_all_iff
  proof
    fix st
    assume "st \<in> set (positions (None, s))"
    then obtain pre where pre: "s = pre @ snd st" "fst st = last_char None pre"
      by (auto simp: positions_iff)
    show "case consume w st of None \<Rightarrow> True | Some st' \<Rightarrow> word_before st \<or> word_after st'"
    proof (cases "consume w st")
      case None
      then show ?thesis by simp
    next
      case (Some st')
      then have "consume w (fst st, snd st) = Some st'" by simp
      then obtain post where post: "snd st = w @ post" "st' = (last_char (fst st) w, post)"
        unfolding consume_iff by blast
      with pre r have "ends_in_word pre \<or> starts_with_word post" by simp
      moreover have "word_before st = ends_in_word pre"
        using pre word_before_last_char [of pre "snd st"] by (cases st) simp
      ultimately show ?thesis using Some post by (simp add: word_after_eq)
    qed
  qed
qed

lemma perl_space_not_word: "c \<in> set (perl_space @ ''-'') \<Longrightarrow> \<not> is_word_char c"
  by (auto simp: perl_space_def is_word_char_def)

lemma invokes_docker_token:
  assumes "invokes_docker text"
  shows "\<exists>pre post. text = pre @ ''docker'' @ post \<and> \<not> ends_in_word pre \<and> \<not> starts_with_word post"
proof -
  consider "docker_subcommand_invocation text" | "docker_compose_hyphenated text"
    | "docker_compose_spaced text"
    using assms by (auto simp: invokes_docker_def)
  then show ?thesis
  proof cases
    case 1
    then obtain pre sep sub post where "text = pre @ ''docker'' @ sep # sub @ post"
      "\<not> ends_in_word pre" "sep \<in> set (perl_space @ ''-'')"
      unfolding docker_subcommand_invocation_def by blast
    then show ?thesis
      using perl_space_not_word [of sep]
      by (intro exI [of _ pre] exI [of _ "sep # sub @ post"]) (simp add: starts_with_word_def)
  next
    case 2
    then obtain pre post where "text = pre @ ''docker-compose'' @ post" "\<not> ends_in_word pre"
      unfolding docker_compose_hyphenated_def by blast
    then show ?thesis
      using perl_space_not_word [of "CHR ''-''"]
      by (intro exI [of _ pre] exI [of _ "''-compose'' @ post"]) (simp add: starts_with_word_def)
  next
    case 3
    then obtain pre ws post where "text = pre @ ''docker'' @ ws @ ''compose'' @ post"
      "\<not> ends_in_word pre" "ws \<noteq> []" "set ws \<subseteq> set perl_space"
      unfolding docker_compose_spaced_def by blast
    then show ?thesis
      using perl_space_not_word [of "hd ws"]
      by (intro exI [of _ pre] exI [of _ "ws @ ''compose'' @ post"])
        (cases ws, auto simp: starts_with_word_def)
  qed
qed

text \<open>
  Claim C3, as the specification states it, has no step flagged whose text contains the
  token only inside a larger single word. The patterns are anchored at the word
  boundaries of the regular expression, where a word character is a letter, a digit or
  the underscore: a hyphen, a slash and a dot end a word, so the steps
  \<open>echo my-docker-build-cache\<close> and \<open>./scripts/docker-build.sh\<close> are flagged.
\<close>

theorem HasDockerCommands_hyphenated_word_counterexample:
  "HasDockerCommands lowerCase_into_ASCII \<lparr>RunsOn = String ''ubuntu-latest'',
      Steps = [\<lparr>Run = ''echo my-docker-build-cache'', Uses = []\<rparr>], Services = Nil,
      Container = Nil\<rparr> \<and>
   HasDockerCommands lowerCase_into_ASCII \<lparr>RunsOn = String ''ubuntu-latest'',
      Steps = [\<lparr>Run = ''./scripts/docker-build.sh'', Uses = []\<rparr>], Services = Nil,
      Container = Nil\<rparr>"
  by code_simp

text \<open>
  Claim C3, amended. The matching is anchored at the word boundaries of the regular
  expression and blind to letter case. A job is not flagged when, in the lower-cased text
  of every step, each occurrence of \<open>docker\<close> has a word character (a letter, a digit or
  the underscore) right before or right after it, as in \<open>echo DOCKER_BUILD\<close>. A job is
  flagged when the lower-cased text of a step contains \<open>docker build\<close>, or \<open>docker-build\<close>
  with the hyphen, with no word character right before and none right after it, so in
  any letter case and also inside a larger hyphenated word. The answer
  depends on the lower-cased texts of the steps only. The lower-cased text is the
  result of \<open>strings.ToLower\<close>, with whatever case table.
\<close>

theorem HasDockerCommands_word_boundaries:
  "((\<forall>step \<in> set (Steps j). \<forall>pre post. ToLower lowerCase (Run step) = pre @ ''docker'' @ post \<longrightarrow>
        ends_in_word pre \<or> starts_with_word post) \<longrightarrow> \<not> HasDockerCommands lowerCase j) \<and>
   (step \<in> set (Steps j) \<and> ToLower lowerCase (Run step) = pre @ ''docker build'' @ post \<and>
      \<not> ends_in_word pre \<and> \<not> starts_with_word post \<longrightarrow> HasDockerCommands lowerCase j) \<and>
   (step \<in> set (Steps j) \<and> ToLower lowerCase (Run step) = pre @ ''docker-build'' @ post \<and>
      \<not> ends_in_word pre \<and> \<not> starts_with_word post \<longrightarrow> HasDockerCommands lowerCase j) \<and>
   (map (\<lambda>step. ToLower lowerCase (Run step)) (Steps j) = map (\<lambda>step. ToLower lowerCase (Run step)) (Steps j') \<longrightarrow>
      HasDockerCommands lowerCase j = HasDockerCommands lowerCase j')"
proof (intro conjI impI)
  assume "\<forall>step \<in> set (Steps j). \<forall>pre post. ToLower lowerCase (Run step) = pre @ ''docker'' @ post \<longrightarrow>
      ends_in_word pre \<or> starts_with_word post"
  then show "\<not> HasDockerCommands lowerCase j"
    unfolding HasDockerCommands_iff using invokes_docker_token by blast
next
  assume a: "step \<in> set (Steps j) \<and> ToLower lowerCase (Run step) = pre @ ''docker build'' @ post \<and>
      \<not> ends_in_word pre \<and> \<not> starts_with_word post"
  then have "docker_subcommand_invocation (ToLower lowerCase (Run step))"
    unfolding docker_subcommand_invocation_def
    by (intro exI [of _ pre] exI [of _ "CHR '' ''"] exI [of _ "''build''"] exI [of _ post])
      (simp add: perl_space_def docker_subcommands_def)
  with a show "HasDockerCommands lowerCase j"
    unfolding HasDockerCommands_iff invokes_docker_def by blast
next
  assume a: "step \<in> set (Steps j) \<and> ToLower lowerCase (Run step) = pre @ ''docker-build'' @ post \<and>
      \<not> ends_in_word pre \<and> \<not> starts_with_word post"
  then have "docker_subcommand_invocation (ToLower lowerCase (Run step))"
    unfolding docker_subcommand_invocation_def
    by (intro exI [of _ pre] exI [of _ "CHR ''-''"] exI [of _ "''build''"] exI [of _ post])
      (simp add: perl_space_def docker_subcommands_def)
  with a show "HasDockerCommands lowerCase j"
    unfolding HasDockerCommands_iff invokes_docker_def by blast
next
  assume eq: "map (\<lambda>step. ToLower lowerCase (Run step)) (Steps j) = map (\<lambda>step. ToLower lowerCase (Run step)) (Steps j')"
  have texts: "HasDockerCommands lowerCase k \<longleftrightarrow>
      (\<exists>text \<in> set (map (\<lambda>step. ToLower lowerCase (Run step)) (Steps k)). invokes_docker text)" for k
    by (auto simp: HasDockerCommands_iff)
  show "HasDockerCommands lowerCase j = HasDockerCommands lowerCase j'"
    by (simp only: texts eq)
qed

theorem HasDockerCommands_word_boundaries_witness:
  "\<not> HasDockerCommands lowerCase_into_ASCII \<lparr>RunsOn = String ''ubuntu-latest'',
      Steps = [\<lparr>Run = ''echo DOCKER_BUILD'', Uses = []\<rparr>], Services = Nil, Container = Nil\<rparr> \<and>
   HasDockerCommands lowerCase_into_ASCII \<lparr>RunsOn = String ''ubuntu-latest'',
      Steps = [\<lparr>Run = ''Docker BUILD -t app .'', Uses = []\<rparr>], Services = Nil, Container = Nil\<rparr> \<and>
   HasDockerCommands lowerCase_into_ASCII \<lparr>RunsOn = String ''ubuntu-latest'',
      Steps = [\<lparr>Run = ''doc'' @ [CHR 0xE2, CHR 0x84, CHR 0xAA] @ ''er build'', Uses = []\<rparr>],
      Services = Nil, Container = Nil\<rparr> \<and>
   \<not> HasDockerCommands lowerCase_into_ASCII \<lparr>RunsOn = String ''ubuntu-latest'',
      Steps = [\<lparr>Run = [CHR 0xE2, CHR 0x84, CHR 0xAA] @ ''docker build'', Uses = []\<rparr>],
      Services = Nil, Container = Nil\<rparr> \<and>
   HasDockerCommands lowerCase_into_ASCII \<lparr>RunsOn = String ''ubuntu-latest'',
      Steps = [\<lparr>Run = ''echo My-Docker-Build-cache'', Uses = []\<rparr>], Services = Nil,
      Container = Nil\<rparr>"
proof -
  have low1: "ToLower lowerCase_into_ASCII ''echo DOCKER_BUILD'' = ''echo docker_build''"
    by code_simp
  have "inside_words ''docker'' ''echo docker_build''"
    by code_simp
  then have h1: "\<forall>pre post. ''echo docker_build'' = pre @ ''docker'' @ post \<longrightarrow>
      ends_in_word pre \<or> starts_with_word post"
    by (simp only: inside_words_iff)
  have low2: "ToLower lowerCase_into_ASCII ''Docker BUILD -t app .'' = [] @ ''docker build'' @ '' -t app .''"
    by code_simp
  have h2: "\<not> ends_in_word []" "\<not> starts_with_word '' -t app .''" "\<not> starts_with_word []"
    by (simp_all add: ends_in_word_def starts_with_word_def is_word_char_def)
  have low3: "ToLower lowerCase_into_ASCII (''doc'' @ [CHR 0xE2, CHR 0x84, CHR 0xAA] @ ''er build'') =
      [] @ ''docker build'' @ []"
    by code_simp
  have low4: "ToLower lowerCase_into_ASCII ([CHR 0xE2, CHR 0x84, CHR 0xAA] @ ''docker build'') =
      ''kdocker build''"
    by code_simp
  have "inside_words ''docker'' ''kdocker build''"
    by code_simp
  then have h4: "\<forall>pre post. ''kdocker build'' = pre @ ''docker'' @ post \<longrightarrow>
      ends_in_word pre \<or> starts_with_word post"
    by (simp only: inside_words_iff)
  have 1: "\<not> HasDockerCommands lowerCase_into_ASCII \<lparr>RunsOn = String ''ubuntu-latest'',
      Steps = [\<lparr>Run = ''echo DOCKER_BUILD'', Uses = []\<rparr>], Services = Nil, Container = Nil\<rparr>"
    using HasDockerCommands_word_boundaries [where lowerCase = lowerCase_into_ASCII
        and j = "\<lparr>RunsOn = String ''ubuntu-latest'',
          Steps = [\<lparr>Run = ''echo DOCKER_BUILD'', Uses = []\<rparr>], Services = Nil, Container = Nil\<rparr>"]
      low1 h1
    by simp
  have 2: "HasDockerCommands lowerCase_into_ASCII \<lparr>RunsOn = String ''ubuntu-latest'',
      Steps = [\<lparr>Run = ''Docker BUILD -t app .'', Uses = []\<rparr>], Services = Nil, Container = Nil\<rparr>"
    using HasDockerCommands_word_boundaries [where lowerCase = lowerCase_into_ASCII
        and j = "\<lparr>RunsOn = String ''ubuntu-latest'',
          Steps = [\<lparr>Run = ''Docker BUILD -t app .'', Uses = []\<rparr>], Services = Nil, Container = Nil\<rparr>"
        and step = "\<lparr>Run = ''Docker BUILD -t app .'', Uses = []\<rparr>" and pre = "[]"
        and post = "'' -t app .''"]
      low2 h2
    by simp
  have 3: "HasDockerCommands lowerCase_into_ASCII \<lparr>RunsOn = String ''ubuntu-latest'',
      Steps = [\<lparr>Run = ''doc'' @ [CHR 0xE2, CHR 0x84, CHR 0xAA] @ ''er build'', Uses = []\<rparr>],
      Services = Nil, Container = Nil\<rparr>"
    using HasDockerCommands_word_boundaries [where lowerCase = lowerCase_into_ASCII
        and j = "\<lparr>RunsOn = String ''ubuntu-latest'',
          Steps = [\<lparr>Run = ''doc'' @ [CHR 0xE2, CHR 0x84, CHR 0xAA] @ ''er build'', Uses = []\<rparr>],
          Services = Nil, Container = Nil\<rparr>"
        and step = "\<lparr>Run = ''doc'' @ [CHR 0xE2, CHR 0x84, CHR 0xAA] @ ''er build'', Uses = []\<rparr>"
        and pre = "[]" and post = "[]"]
      low3 h2
    by simp
  have 4: "\<not> HasDockerCommands lowerCase_into_ASCII \<lparr>RunsOn = String ''ubuntu-latest'',
      Steps = [\<lparr>Run = [CHR 0xE2, CHR 0x84, CHR 0xAA] @ ''docker build'', Uses = []\<rparr>],
      Services = Nil, Container = Nil\<rparr>"
    using HasDockerCommands_word_boundaries [where lowerCase = lowerCase_into_ASCII
        and j = "\<lparr>RunsOn = String ''ubuntu-latest'',
          Steps = [\<lparr>Run = [CHR 0xE2, CHR 0x84, CHR 0xAA] @ ''docker build'', Uses = []\<rparr>],
          Services = Nil, Container = Nil\<rparr>"]
      low4 h4
    by simp
  have low5: "ToLower lowerCase_into_ASCII ''echo My-Docker-Build-cache'' =
      ''echo my-'' @ ''docker-build'' @ ''-cache''"
    by code_simp
  have h5: "\<not> ends_in_word ''echo my-''" "\<not> starts_with_word ''-cache''"
    by (simp_all add: ends_in_word_def starts_with_word_def is_word_char_def)
  have 5: "HasDockerCommands lowerCase_into_ASCII \<lparr>RunsOn = String ''ubuntu-latest'',
      Steps = [\<lparr>Run = ''echo My-Docker-Build-cache'', Uses = []\<rparr>], Services = Nil,
      Container = Nil\<rparr>"
    using HasDockerCommands_word_boundaries [where lowerCase = lowerCase_into_ASCII
        and j = "\<lparr>RunsOn = String ''ubuntu-latest'',
          Steps = [\<lparr>Run = ''echo My-Docker-Build-cache'', Uses = []\<rparr>], Services = Nil,
          Container = Nil\<rparr>"
        and step = "\<lparr>Run = ''echo My-Docker-Build-cache'', Uses = []\<rparr>"
        and pre = "''echo my-''" and post = "''-cache''"]
      low5 h5
    by simp
  from 1 2 3 4 5 show ?thesis by blast
qed

section \<open>White space, fields and the loops of the extraction\<close>

lemma space_width_pos_iff: "0 < space_width s \<longleftrightarrow> (\<exists>q \<in> set whiteSpace. HasPrefix s q)"
proof
  assume "0 < space_width s"
  then obtain q where "find (HasPrefix s) whiteSpace = Some q"
    by (auto simp: space_width_def split: option.splits)
  then show "\<exists>q \<in> set whiteSpace. HasPrefix s q"
    using find_whiteSpace_SomeD by blast
next
  assume "\<exists>q \<in> set whiteSpace. HasPrefix s q"
  then obtain q where "find (HasPrefix s) whiteSpace = Some q"
    by (cases "find (HasPrefix s) whiteSpace") (auto simp: find_None_iff)
  then show "0 < space_width s"
    using find_whiteSpace_SomeD [of "HasPrefix s" q] by (simp add: space_width_def)
qed

lemma space_width_zero_iff: "space_width s = 0 \<longleftrightarrow> (\<forall>q \<in> set whiteSpace. \<not> HasPrefix s q)"
  using space_width_pos_iff [of s] by auto

lemma space_width_blank: "space_width (CHR 0x20 # x) = 1"
  by (simp add: space_width_def whiteSpace_def asciiSpace_def HasPrefix_def)

lemma whiteSpace_tail_no_blank: "q \<in> set whiteSpace \<Longrightarrow> CHR 0x20 \<notin> set (tl q)"
  by (auto simp: whiteSpace_def asciiSpace_def)

lemma HasPrefix_length: "HasPrefix u q \<Longrightarrow> length q \<le> length u"
proof -
  assume "HasPrefix u q"
  then have "length (take (length q) u) = length q" by (simp add: HasPrefix_def)
  then show ?thesis by simp
qed

lemma HasPrefix_appendI: "HasPrefix u q \<Longrightarrow> HasPrefix (u @ v) q"
  using HasPrefix_length [of u q] by (simp add: HasPrefix_def)

lemma space_width_append_zero: "space_width (u @ v) = 0 \<Longrightarrow> space_width u = 0"
  unfolding space_width_zero_iff using HasPrefix_appendI by blast

lemma HasPrefix_before_blank:
  assumes "HasPrefix (u @ CHR 0x20 # x) q" and "u \<noteq> []" and "q \<in> set whiteSpace"
  shows "HasPrefix u q"
proof (rule ccontr)
  assume n: "\<not> HasPrefix u q"
  from assms(1) have q: "q = take (length q) (u @ CHR 0x20 # x)"
    by (simp add: HasPrefix_def)
  have "length u < length q"
  proof (rule ccontr)
    assume "\<not> length u < length q"
    then have "take (length q) (u @ CHR 0x20 # x) = take (length q) u" by simp
    with q n show False by (simp add: HasPrefix_def)
  qed
  then have "q ! length u = (u @ CHR 0x20 # x) ! length u"
    using q nth_take [of "length u" "length q" "u @ CHR 0x20 # x"] by simp
  then have "q ! length u = CHR 0x20" by simp
  moreover obtain c q' where cq: "q = c # q'"
    using \<open>length u < length q\<close> by (cases q) auto
  moreover obtain n where n: "length u = Suc n"
    using assms(2) by (cases u) auto
  ultimately have "q' ! n = CHR 0x20" and "n < length q'"
    using \<open>length u < length q\<close> by auto
  then have "CHR 0x20 \<in> set (tl q)"
    using cq nth_mem [of n q'] by simp
  with whiteSpace_tail_no_blank [OF assms(3)] show False by simp
qed

lemma space_width_before_blank:
  "space_width u = 0 \<Longrightarrow> u \<noteq> [] \<Longrightarrow> space_width (u @ CHR 0x20 # x) = 0"
  unfolding space_width_zero_iff using HasPrefix_before_blank by blast

lemma no_space_in_alone: "no_space_in t s \<Longrightarrow> no_space_in t []"
proof (induction t)
  case Nil
  then show ?case by simp
next
  case (Cons c cs)
  then show ?case using space_width_append_zero [of "c # cs" s] by simp
qed

lemma no_space_in_snoc:
  "no_space_in cur (c # cs) \<Longrightarrow> space_width (c # cs) = 0 \<Longrightarrow> no_space_in (cur @ [c]) cs"
  by (induction cur) auto

lemma fields_go_tokens:
  "no_space_in cur s \<Longrightarrow> t \<in> set (fields_go cur s) \<Longrightarrow> t \<noteq> [] \<and> no_space_in t []"
proof (induction cur s rule: fields_go.induct)
  case (1 cur)
  then show ?case by (auto simp: flush_def split: if_splits)
next
  case (2 cur c cs)
  show ?case
  proof (cases "0 < space_width (c # cs)")
    case True
    with 2 have "t \<in> set (flush cur) \<or> t \<in> set (fields_go [] (drop (space_width (c # cs) - 1) cs))"
      by simp
    then show ?thesis
    proof
      assume "t \<in> set (flush cur)"
      with "2.prems" show ?thesis
        using no_space_in_alone [of cur "c # cs"] by (auto simp: flush_def split: if_splits)
    next
      assume "t \<in> set (fields_go [] (drop (space_width (c # cs) - 1) cs))"
      with True 2 show ?thesis by simp
    qed
  next
    case False
    with 2 have "t \<in> set (fields_go (cur @ [c]) cs)" by simp
    moreover have "no_space_in (cur @ [c]) cs"
      using False "2.prems" by (intro no_space_in_snoc) simp_all
    ultimately show ?thesis using False 2 by simp
  qed
qed

lemma Fields_tokens: "t \<in> set (Fields s) \<Longrightarrow> t \<noteq> [] \<and> no_space_in t []"
  using fields_go_tokens [of "[]" s t] by (simp add: Fields_def)

lemma fields_go_token:
  "no_space_in t [] \<Longrightarrow> rest = [] \<or> (\<exists>x. rest = CHR 0x20 # x) \<Longrightarrow>
     fields_go cur (t @ rest) = fields_go (cur @ t) rest"
proof (induction t arbitrary: cur)
  case Nil
  then show ?case by simp
next
  case (Cons c cs)
  then have "space_width (c # cs) = 0" by simp
  with Cons.prems(2) have "space_width (c # cs @ rest) = 0"
    using space_width_before_blank [of "c # cs"] by auto
  then have "fields_go cur ((c # cs) @ rest) = fields_go (cur @ [c]) (cs @ rest)"
    by simp
  also have "\<dots> = fields_go ((cur @ [c]) @ cs) rest"
    using Cons by simp
  finally show ?case by simp
qed

lemma Fields_Join:
  "\<forall>t \<in> set toks. t \<noteq> [] \<and> no_space_in t [] \<Longrightarrow> Fields (Join toks '' '') = toks"
proof (induction toks "'' ''" rule: Join.induct)
  case 1
  then show ?case by (simp add: Fields_def flush_def)
next
  case (2 x)
  then show ?case
    using fields_go_token [of x "[]" "[]"] by (simp add: Fields_def flush_def)
next
  case (3 x y ys)
  then have "fields_go [] (x @ CHR 0x20 # Join (y # ys) '' '') = fields_go x (CHR 0x20 # Join (y # ys) '' '')"
    using fields_go_token [of x "CHR 0x20 # Join (y # ys) '' ''" "[]"] by simp
  also have "\<dots> = x # fields_go [] (Join (y # ys) '' '')"
    using 3 by (simp add: space_width_blank flush_def)
  finally show ?case using 3 by (simp add: Fields_def)
qed

lemma index_at_append: "index_at (pre @ x # xs) (int (length pre)) = Inr x"
  by (simp add: index_at_def)

lemma skip_assignments_eq:
  "skip_assignments (pre @ xs) (int (length pre)) =
     Inr (int (length pre + length (takeWhile is_assignment xs)))"
proof (induction xs arbitrary: pre)
  case Nil
  show ?case by (subst skip_assignments.simps) simp
next
  case (Cons x xs)
  show ?case
  proof (cases "is_assignment x")
    case False
    then show ?thesis
      by (subst skip_assignments.simps) (simp add: index_at_append is_assignment_def)
  next
    case True
    have "skip_assignments (pre @ x # xs) (int (length pre)) =
        skip_assignments ((pre @ [x]) @ xs) (int (length (pre @ [x])))"
      using True by (subst skip_assignments.simps) (simp add: index_at_append is_assignment_def ac_simps)
    also have "\<dots> = Inr (int (length (pre @ [x]) + length (takeWhile is_assignment xs)))"
      by (rule Cons.IH)
    finally show ?thesis using True by simp
  qed
qed

lemma skip_prefixes_eq:
  "skip_prefixes (pre @ xs) (int (length pre)) =
     Inr (int (length pre + length (takeWhile is_wrapper xs)))"
proof (induction xs arbitrary: pre)
  case Nil
  show ?case by (subst skip_prefixes.simps) simp
next
  case (Cons x xs)
  have found: "list_ex (\<lambda>prefix. x = prefix) prefixes = is_wrapper x"
    by (auto simp: list_ex_iff is_wrapper_def)
  show ?case
  proof (cases "is_wrapper x")
    case False
    then show ?thesis
      by (subst skip_prefixes.simps) (simp add: index_at_append found)
  next
    case True
    have "skip_prefixes (pre @ x # xs) (int (length pre)) =
        skip_prefixes ((pre @ [x]) @ xs) (int (length (pre @ [x])))"
      using True by (subst skip_prefixes.simps) (simp add: index_at_append found ac_simps)
    also have "\<dots> = Inr (int (length (pre @ [x]) + length (takeWhile is_wrapper xs)))"
      by (rule Cons.IH)
    finally show ?thesis using True by simp
  qed
qed

lemma dropWhile_Nil_length: "dropWhile P xs = [] \<longleftrightarrow> length xs \<le> length (takeWhile P xs)"
  by (induction xs) auto

lemma dropWhile_nth: "dropWhile P xs = c # cs \<Longrightarrow> xs ! length (takeWhile P xs) = c"
  by (induction xs) (auto split: if_splits)

lemma command_after_prefixes_eq:
  assumes "\<forall>t \<in> set toks. t \<noteq> [] \<and> no_space_in t []"
  shows "command_after_prefixes (Join toks '' '') =
     Inr (case dropWhile is_wrapper toks of [] \<Rightarrow> [] | cmd # _ \<Rightarrow> cmd)"
proof -
  have f: "Fields (Join toks '' '') = toks"
    using assms by (rule Fields_Join)
  have s: "skip_prefixes toks 0 = Inr (int (length (takeWhile is_wrapper toks)))"
    using skip_prefixes_eq [of "[]" toks] by simp
  show ?thesis
  proof (cases "dropWhile is_wrapper toks")
    case Nil
    then have "length toks \<le> length (takeWhile is_wrapper toks)"
      by (rule dropWhile_Nil_length [THEN iffD1])
    then show ?thesis by (simp add: command_after_prefixes_def f s Nil)
  next
    case (Cons c cs)
    then have "\<not> length toks \<le> length (takeWhile is_wrapper toks)"
      using dropWhile_Nil_length [of is_wrapper toks] by (simp del: dropWhile_eq_Nil_conv)
    moreover from Cons have "toks ! length (takeWhile is_wrapper toks) = c"
      by (rule dropWhile_nth)
    ultimately show ?thesis using Cons
      by (auto simp: command_after_prefixes_def f s index_at_def)
  qed
qed

lemma extractCommandFromPart_eq:
  "extractCommandFromPart part = Inr (first_command (Fields (TrimSpace part)))"
proof -
  define toks where "toks = Fields (TrimSpace part)"
  have s: "skip_assignments toks 0 = Inr (int (length (takeWhile is_assignment toks)))"
    using skip_assignments_eq [of "[]" toks] by simp
  have tok: "\<forall>t \<in> set (dropWhile is_assignment toks). t \<noteq> [] \<and> no_space_in t []"
    using Fields_tokens set_dropWhileD unfolding toks_def by fast
  have empty: "TrimSpace part = [] \<Longrightarrow> toks = []"
    by (simp add: toks_def Fields_def flush_def)
  show ?thesis
  proof (cases "dropWhile is_assignment toks = []")
    case True
    then have "length toks \<le> length (takeWhile is_assignment toks)"
      by (rule dropWhile_Nil_length [THEN iffD1])
    then show ?thesis
      using empty by (auto simp: extractCommandFromPart_def Let_def first_command_def s True toks_def [symmetric])
  next
    case False
    then have n: "\<not> length toks \<le> length (takeWhile is_assignment toks)"
      using dropWhile_Nil_length [of is_assignment toks] by blast
    then have "toks \<noteq> []" by auto
    with empty have "TrimSpace part \<noteq> []" by auto
    moreover have "slice_from toks (int (length (takeWhile is_assignment toks))) =
        Inr (dropWhile is_assignment toks)"
      using n by (simp add: slice_from_def dropWhile_eq_drop)
    ultimately show ?thesis
      using n \<open>toks \<noteq> []\<close> command_after_prefixes_eq [OF tok]
      by (simp add: extractCommandFromPart_def Let_def first_command_def s toks_def [symmetric])
  qed
qed

lemma extract_parts_eq:
  "extract_parts commands parts =
     Inr (commands @ filter (\<lambda>cmd. cmd \<noteq> []) (map fragment_command parts))"
  by (induction parts arbitrary: commands)
    (simp_all add: extractCommandFromPart_eq fragment_command_def)

lemma HasPrefix_shebang: "HasPrefix s ''#!'' \<Longrightarrow> HasPrefix s ''#''"
  by (cases s) (auto simp: HasPrefix_def)

lemma extract_lines_eq:
  "extract_lines commands lines = Inr (commands @ concat (map line_commands lines))"
  using HasPrefix_shebang
  by (induction lines arbitrary: commands)
    (auto simp: extract_parts_eq line_commands_def Let_def)

lemma extractCommands_eq:
  "extractCommands script = Inr (concat (map line_commands (Split script [CHR 0x0A])))"
  by (simp add: extractCommands_def extract_lines_eq)






lemma first_command_assignments:
  assumes "\<forall>tok \<in> set toks. Contains tok ''=''"
  shows "first_command toks = []"
proof -
  have d: "dropWhile is_assignment toks = []"
    using assms by (simp add: is_assignment_def)
  show ?thesis by (simp add: first_command_def d)
qed

lemma line_commands_assignments:
  assumes "\<forall>part \<in> set (splitCommandLine (TrimSpace line)).
      \<forall>tok \<in> set (Fields (TrimSpace part)). Contains tok ''=''"
  shows "line_commands line = []"
proof -
  have "fragment_command part = []" if "part \<in> set (splitCommandLine (TrimSpace line))" for part
    using assms that by (simp add: fragment_command_def first_command_assignments)
  then show ?thesis
    by (simp add: line_commands_def Let_def filter_empty_conv)
qed

lemma extractCommands_assignments: "only_assignments script \<Longrightarrow> extractCommands script = Inr []"
  unfolding only_assignments_def extractCommands_eq
  using line_commands_assignments by simp

lemma scan_steps_assignments:
  "\<forall>step \<in> set steps. only_assignments (Run step) \<Longrightarrow> scan_steps missing st steps = Inr st"
  by (induction steps) (simp_all add: extractCommands_assignments)

section \<open>Command extraction never fails\<close>


section \<open>Scripts of assignments\<close>

text \<open>
  Claim C7. A fragment whose tokens all contain \<open>=\<close> yields no command, and for a job whose
  shell scripts consist of variable assignments only \<open>GetMissingCommands\<close> returns the
  empty list (for a job on \<open>ubuntu-latest\<close> as for any other).
\<close>

theorem GetMissingCommands_only_assignments:
  "((\<forall>tok \<in> set (Fields (TrimSpace part)). Contains tok ''='') \<longrightarrow>
      extractCommandFromPart part = Inr []) \<and>
   ((\<forall>step \<in> set (Steps j). only_assignments (Run step)) \<longrightarrow>
      GetMissingCommands missing j = Inr [])"
  by (simp add: extractCommandFromPart_eq first_command_assignments GetMissingCommands_def
      scan_steps_assignments)

theorem GetMissingCommands_only_assignments_witness:
  "IsUbuntuLatest \<lparr>RunsOn = String ''ubuntu-latest'',
      Steps = [\<lparr>Run = ''FOO=bar BAZ=qux'', Uses = []\<rparr>], Services = Nil, Container = Nil\<rparr> \<and>
   only_assignments ''FOO=bar BAZ=qux'' \<and>
   extractCommandFromPart ''FOO=bar BAZ=qux'' = Inr [] \<and>
   GetMissingCommands (\<lambda>cmd. True) \<lparr>RunsOn = String ''ubuntu-latest'',
      Steps = [\<lparr>Run = ''FOO=bar BAZ=qux'', Uses = []\<rparr>], Services = Nil, Container = Nil\<rparr> = Inr []"
proof -
  have a: "only_assignments ''FOO=bar BAZ=qux''"
    by code_simp
  have b: "\<forall>tok \<in> set (Fields (TrimSpace ''FOO=bar BAZ=qux'')). Contains tok ''=''"
    by code_simp
  have c: "IsUbuntuLatest \<lparr>RunsOn = String ''ubuntu-latest'',
      Steps = [\<lparr>Run = ''FOO=bar BAZ=qux'', Uses = []\<rparr>], Services = Nil, Container = Nil\<rparr>"
    by (simp add: IsUbuntuLatest_def)
  show ?thesis
    using a b c
      GetMissingCommands_only_assignments [of "''FOO=bar BAZ=qux''" "\<lparr>RunsOn = String ''ubuntu-latest'',
        Steps = [\<lparr>Run = ''FOO=bar BAZ=qux'', Uses = []\<rparr>], Services = Nil, Container = Nil\<rparr>"
        "\<lambda>cmd. True"]
    by simp
qed

lemma prefixes_not_assignments: "w \<in> set prefixes \<Longrightarrow> \<not> is_assignment w"
  by (auto simp: prefixes_def is_assignment_def HasPrefix_def)

lemma first_command_shape:
  assumes "\<forall>a \<in> set assignments. Contains a ''=''"
    and "set wrappers \<subseteq> set prefixes"
    and "cmd \<notin> set prefixes"
    and "wrappers = [] \<longrightarrow> \<not> Contains cmd ''=''"
  shows "first_command (assignments @ wrappers @ cmd # args) = cmd"
proof -
  have "\<not> is_assignment (hd (wrappers @ cmd # args))"
    using assms(2,4) prefixes_not_assignments [of "hd wrappers"]
    by (cases wrappers) (auto simp: is_assignment_def)
  then have "dropWhile is_assignment (wrappers @ cmd # args) = wrappers @ cmd # args"
    by (cases wrappers) auto
  moreover have "dropWhile is_assignment (assignments @ wrappers @ cmd # args) =
      dropWhile is_assignment (wrappers @ cmd # args)"
    using assms(1) by (intro dropWhile_append2) (simp add: is_assignment_def)
  moreover have "dropWhile is_wrapper (wrappers @ cmd # args) = cmd # args"
    using assms(2,3) by (subst dropWhile_append2) (auto simp: is_wrapper_def)
  ultimately show ?thesis by (simp add: first_command_def)
qed













section \<open>Wrapper prefixes and the basename\<close>



section \<open>An assignment after a wrapper prefix\<close>

text \<open>
  Claim C10. Assignments are skipped before the first token that is not one, and not
  again after the wrapper prefixes: when the first token is a wrapper prefix and the
  second is not, the second token is the command, an assignment included. For
  \<open>env FOO=1 docker build\<close> the first loop stops at index 0 (\<open>env\<close> has no \<open>=\<close>), the second
  loop skips \<open>env\<close>, and \<open>FOO=1\<close> is returned; \<open>FOO=1 env docker build\<close> yields \<open>docker\<close>.
\<close>

theorem assignment_after_wrapper_is_command:
  "(Fields (TrimSpace part) = wrapper # tok # rest \<and> wrapper \<in> set prefixes \<and>
      tok \<notin> set prefixes \<longrightarrow> extractCommandFromPart part = Inr tok) \<and>
   extractCommandFromPart ''env FOO=1 docker build'' = Inr ''FOO=1'' \<and>
   Fields ''env FOO=1 docker build'' = [''env'', ''FOO=1'', ''docker'', ''build''] \<and>
   skip_assignments [''env'', ''FOO=1'', ''docker'', ''build''] 0 = Inr 0 \<and>
   skip_prefixes [''env'', ''FOO=1'', ''docker'', ''build''] 0 = Inr 1 \<and>
   extractCommandFromPart ''FOO=1 env docker build'' = Inr ''docker''"
proof (intro conjI impI)
  assume "Fields (TrimSpace part) = wrapper # tok # rest \<and> wrapper \<in> set prefixes \<and>
      tok \<notin> set prefixes"
  then show "extractCommandFromPart part = Inr tok"
    using first_command_shape [of "[]" "[wrapper]" tok rest]
    by (simp add: extractCommandFromPart_eq)
next
  show "extractCommandFromPart ''env FOO=1 docker build'' = Inr ''FOO=1''"
    by code_simp
  show "Fields ''env FOO=1 docker build'' = [''env'', ''FOO=1'', ''docker'', ''build'']"
    by code_simp
  show "skip_assignments [''env'', ''FOO=1'', ''docker'', ''build''] 0 = Inr 0"
    by code_simp
  show "skip_prefixes [''env'', ''FOO=1'', ''docker'', ''build''] 0 = Inr 1"
    by code_simp
  show "extractCommandFromPart ''FOO=1 env docker build'' = Inr ''docker''"
    by code_simp
qed

theorem assignment_after_wrapper_is_command_witness:
  "Fields (TrimSpace ''env FOO=1 docker build'') = ''env'' # ''FOO=1'' # [''docker'', ''build''] \<and>
   ''env'' \<in> set prefixes \<and> ''FOO=1'' \<notin> set prefixes \<and> Contains ''FOO=1'' ''='' \<and>
   extractCommandFromPart ''env FOO=1 docker build'' = Inr ''FOO=1''"
proof -
  have f: "Fields (TrimSpace ''env FOO=1 docker build'') = ''env'' # ''FOO=1'' # [''docker'', ''build'']"
    by code_simp
  have w: "''env'' \<in> set prefixes" "''FOO=1'' \<notin> set prefixes"
    by (simp_all add: prefixes_def)
  have c: "Contains ''FOO=1'' ''=''"
    by code_simp
  from assignment_after_wrapper_is_command [of "''env FOO=1 docker build''" "''env''" "''FOO=1''"
      "[''docker'', ''build'']"] f w
  have "extractCommandFromPart ''env FOO=1 docker build'' = Inr ''FOO=1''"
    by blast
  with f w c show ?thesis by blast
qed

section \<open>Redirection targets\<close>

text \<open>
  Claim C9. A line is split at the redirection operators and every piece is a candidate
  fragment, so the target of a redirection is extracted as a command: \<open>echo hi > docker\<close>
  yields \<open>echo\<close> and \<open>docker\<close>, and likewise after \<open>>>\<close>, \<open><\<close> and \<open><<\<close>; with \<open>docker\<close> in
  the table of missing commands, the job is reported to miss \<open>docker\<close>.
\<close>

theorem redirection_target_extracted:
  "splitCommandLine ''echo hi > docker'' = [''echo hi'', ''docker''] \<and>
   extractCommands ''echo hi > docker'' = Inr [''echo'', ''docker''] \<and>
   extractCommands ''echo hi >> docker'' = Inr [''echo'', ''docker''] \<and>
   extractCommands ''cat < docker'' = Inr [''cat'', ''docker''] \<and>
   extractCommands ''cat << docker'' = Inr [''cat'', ''docker''] \<and>
   GetMissingCommands (\<lambda>cmd. cmd = ''docker'') \<lparr>RunsOn = String ''ubuntu-latest'',
      Steps = [\<lparr>Run = ''echo hi > docker'', Uses = []\<rparr>], Services = Nil, Container = Nil\<rparr> =
     Inr [''docker'']"
  by code_simp

end
